theory Spec2Isabelle
  imports Main "HOL-Library.AList" "HOL-Library.Sublist"
begin
section \<open>Values, results and exceptions\<close>

text \<open>
  The two tools of \<^verbatim>\<open>server.py\<close>, \<^verbatim>\<open>get_templates\<close> and \<^verbatim>\<open>use_template\<close>, return
  Python dictionaries and read parsed JSON. Both are values of \<open>pyval\<close>; a dictionary is
  an association list in insertion order, its keys strings.
\<close>

datatype pyval =
    PNone
  | PBool bool
  | PInt int
  | PFloat string
  | PStr string
  | PList "pyval list"
  | PDict "(string \<times> pyval) list"

type_synonym result = "(string \<times> pyval) list"

type_synonym path = "string list"

datatype errno = ENOENT | EEXIST | ENOTDIR | EISDIR

text \<open>The exceptions the libraries called by the two tools can raise.\<close>

datatype exn =
    OSError errno path
  | SameFileError path path
  | RuntimeError string
  | RequestException string
  | GitCommandError string
  | ValueError string
  | KeyError string
  | AttributeError string
  | TypeError string

text \<open>\<^verbatim>\<open>str\<close> of an integer, as an f-string renders \<^verbatim>\<open>response.status_code\<close>.\<close>

definition digit_char :: "nat \<Rightarrow> char" where
  "digit_char d = ''0123456789'' ! (d mod 10)"

fun digits :: "nat \<Rightarrow> string" where
  "digits n = (if n < 10 then [digit_char n] else digits (n div 10) @ [digit_char n])"

definition str_int :: "int \<Rightarrow> string" where
  "str_int i = (if i < 0 then CHR ''-'' # digits (nat (- i)) else digits (nat i))"

section \<open>Paths\<close>

text \<open>
  A path is the list of its components below the root. \<open>path_sep\<close> is \<^verbatim>\<open>os.sep\<close> of the
  host: \<^verbatim>\<open>/\<close> on a POSIX host, the backslash on Windows, where \<^verbatim>\<open>/\<close> separates
  components as well. \<^verbatim>\<open>pathlib\<close> drops empty components and \<^verbatim>\<open>.\<close> when it parses a
  string. Drive letters, symbolic links and the resolution of \<^verbatim>\<open>..\<close> are outside the
  model: a component \<^verbatim>\<open>..\<close> is looked up as a name, which no directory holds.
\<close>

definition is_sep :: "char \<Rightarrow> char \<Rightarrow> bool" where
  "is_sep sep c = (c = CHR ''/'' \<or> c = sep)"

fun split_on :: "(char \<Rightarrow> bool) \<Rightarrow> string \<Rightarrow> string list" where
  "split_on P [] = [[]]"
| "split_on P (c # cs) =
     (if P c then [] # split_on P cs
      else (case split_on P cs of [] \<Rightarrow> [[c]] | w # ws \<Rightarrow> (c # w) # ws))"

definition path_parts :: "char \<Rightarrow> string \<Rightarrow> path" where
  "path_parts sep s = filter (\<lambda>c. c \<noteq> [] \<and> c \<noteq> ''.'') (split_on (is_sep sep) s)"

definition is_absolute :: "char \<Rightarrow> string \<Rightarrow> bool" where
  "is_absolute sep s = (case s of [] \<Rightarrow> False | c # _ \<Rightarrow> is_sep sep c)"

text \<open>\<^verbatim>\<open>str\<close> of a relative path joins the components with \<^verbatim>\<open>os.sep\<close>.\<close>

fun join_path :: "char \<Rightarrow> path \<Rightarrow> string" where
  "join_path sep [] = []"
| "join_path sep [x] = x"
| "join_path sep (x # y # ys) = x @ sep # join_path sep (y # ys)"

definition str_rel :: "char \<Rightarrow> path \<Rightarrow> string" where
  "str_rel sep p = (if p = [] then ''.'' else join_path sep p)"

definition str_abs :: "char \<Rightarrow> path \<Rightarrow> string" where
  "str_abs sep p = sep # join_path sep p"

section \<open>The file system\<close>

text \<open>
  A directory lists its entries in the order \<^verbatim>\<open>os.scandir\<close> yields them; a regular
  file holds its bytes. Modes and times, which \<^verbatim>\<open>shutil.copy2\<close> copies as well, are not
  modelled.
\<close>

datatype node = File string | Dir "(string \<times> node) list"

type_synonym entries = "(string \<times> node) list"

fun stat :: "node \<Rightarrow> path \<Rightarrow> errno + node" where
  "stat n [] = Inr n"
| "stat (File _) (c # cs) = Inl ENOTDIR"
| "stat (Dir es) (c # cs) = (case map_of es c of None \<Rightarrow> Inl ENOENT | Some n \<Rightarrow> stat n cs)"

definition exists_path :: "node \<Rightarrow> path \<Rightarrow> bool" where
  "exists_path fs p = (case stat fs p of Inr _ \<Rightarrow> True | Inl _ \<Rightarrow> False)"

definition is_dir :: "node \<Rightarrow> path \<Rightarrow> bool" where
  "is_dir fs p = (case stat fs p of Inr (Dir _) \<Rightarrow> True | _ \<Rightarrow> False)"

definition is_file :: "node \<Rightarrow> path \<Rightarrow> bool" where
  "is_file fs p = (case stat fs p of Inr (File _) \<Rightarrow> True | _ \<Rightarrow> False)"

text \<open>\<open>modify_dir p f fs\<close> rewrites the entry list of the directory at \<open>p\<close> with \<open>f\<close>.\<close>

fun modify_dir :: "path \<Rightarrow> (entries \<Rightarrow> entries) \<Rightarrow> node \<Rightarrow> node" where
  "modify_dir p f (File c) = File c"
| "modify_dir [] f (Dir es) = Dir (f es)"
| "modify_dir (c # cs) f (Dir es) = Dir (AList.map_entry c (modify_dir cs f) es)"

text \<open>The system call \<^verbatim>\<open>mkdir\<close>: it creates one directory, or fails and changes nothing.\<close>

definition os_mkdir :: "path \<Rightarrow> node \<Rightarrow> errno + node" where
  "os_mkdir p fs =
     (if p = [] then Inl EEXIST
      else case stat fs (butlast p) of
        Inl e \<Rightarrow> Inl e
      | Inr (File _) \<Rightarrow> Inl ENOTDIR
      | Inr (Dir es) \<Rightarrow>
          (case map_of es (last p) of
             Some _ \<Rightarrow> Inl EEXIST
           | None \<Rightarrow> Inr (modify_dir (butlast p) (\<lambda>es. es @ [(last p, Dir [])]) fs)))"

text \<open>
  \<^verbatim>\<open>Path.mkdir(parents=False, exist_ok=True)\<close> and \<^verbatim>\<open>Path.mkdir(parents=True, exist_ok=True)\<close>,
  the second as \<^verbatim>\<open>pathlib\<close> writes it: on \<^verbatim>\<open>FileNotFoundError\<close> it makes the parent, then
  the directory itself; on any other \<^verbatim>\<open>OSError\<close> it raises unless the path is a directory.
  Both return the exception raised, if any, and the file system as they leave it.
\<close>

definition mkdir_exist_ok :: "path \<Rightarrow> node \<Rightarrow> exn option \<times> node" where
  "mkdir_exist_ok p fs =
     (case os_mkdir p fs of
        Inr fs' \<Rightarrow> (None, fs')
      | Inl e \<Rightarrow> if e \<noteq> ENOENT \<and> is_dir fs p then (None, fs) else (Some (OSError e p), fs))"

function mkdir_parents :: "path \<Rightarrow> node \<Rightarrow> exn option \<times> node" where
  "mkdir_parents p fs =
     (case os_mkdir p fs of
        Inr fs' \<Rightarrow> (None, fs')
      | Inl e \<Rightarrow>
          if e = ENOENT then
            (if p = [] then (Some (OSError e p), fs)
             else case mkdir_parents (butlast p) fs of
               (Some x, fs1) \<Rightarrow> (Some x, fs1)
             | (None, fs1) \<Rightarrow> mkdir_exist_ok p fs1)
          else if is_dir fs p then (None, fs) else (Some (OSError e p), fs))"
  by pat_completeness auto
termination
  by (relation "measure (\<lambda>(p, fs). length p)") auto

text \<open>Opening a file for writing creates it or truncates it; \<^verbatim>\<open>shutil.rmtree\<close> removes a subtree.\<close>

definition write_file :: "path \<Rightarrow> string \<Rightarrow> node \<Rightarrow> node" where
  "write_file p c fs = modify_dir (butlast p) (AList.update (last p) (File c)) fs"

definition rmtree :: "path \<Rightarrow> node \<Rightarrow> node" where
  "rmtree p fs = modify_dir (butlast p) (AList.delete (last p)) fs"

text \<open>
  \<^verbatim>\<open>shutil.copy2(src, dst)\<close>: a destination that is a directory receives the file under
  the source's name; the same file on both sides is refused; the source is opened for
  reading and the destination for writing.
\<close>

definition copy2 :: "path \<Rightarrow> path \<Rightarrow> node \<Rightarrow> exn option \<times> node" where
  "copy2 src dst fs =
     (let dst' = (if is_dir fs dst then dst @ (if src = [] then [] else [last src]) else dst) in
      if src = dst' \<and> exists_path fs src then (Some (SameFileError src dst'), fs)
      else case stat fs src of
        Inl e \<Rightarrow> (Some (OSError e src), fs)
      | Inr (Dir _) \<Rightarrow> (Some (OSError EISDIR src), fs)
      | Inr (File c) \<Rightarrow>
          if dst' = [] then (Some (OSError EISDIR dst'), fs)
          else (case stat fs (butlast dst') of
             Inl e \<Rightarrow> (Some (OSError e dst'), fs)
           | Inr (File _) \<Rightarrow> (Some (OSError ENOTDIR dst'), fs)
           | Inr (Dir es) \<Rightarrow>
               (case map_of es (last dst') of
                  Some (Dir _) \<Rightarrow> (Some (OSError EISDIR dst'), fs)
                | _ \<Rightarrow> (None, write_file dst' c fs))))"

text \<open>
  \<^verbatim>\<open>Path.rglob("*")\<close>, relative to the directory it starts from: \<^verbatim>\<open>pathlib\<close>'s recursive
  selector walks the directories in pre-order and lists, for each, all its entries.
  The enumeration is taken when the loop starts.
\<close>

fun rglob :: "node \<Rightarrow> path list" where
  "rglob (File c) = []"
| "rglob (Dir es) =
     map (\<lambda>e. [fst e]) es @ concat (map (\<lambda>e. map ((#) (fst e)) (rglob (snd e))) es)"


section \<open>The environment\<close>

text \<open>
  What the tools meet outside the process: the answer of the hosting service to a
  \<^verbatim>\<open>GET\<close> (a status and a body that parses as JSON or does not, or a transport
  failure), the outcome of \<^verbatim>\<open>Repo.clone_from\<close> (the entries it leaves in the directory
  it clones into, and the error if it fails), the home and working directories, and the
  directory and the candidate names \<^verbatim>\<open>tempfile\<close> draws from.
\<close>

datatype body = Json pyval | NotJson exn

datatype http_outcome = Response int body | RequestFailed string

datatype clone_outcome = Cloned entries | CloneFailed string entries

record env =
  path_sep :: char
  home_of :: "string \<Rightarrow> path option"
  cwd :: path
  http_get :: "string \<Rightarrow> http_outcome"
  tmpdir :: path
  tmp_names :: "string list"
  clone_from :: clone_outcome

text \<open>The calls with an effect outside the process, in the order they are made.\<close>

datatype call =
    HttpGet string
  | Mkdirs path
  | Mkdtemp
  | CloneFrom string path
  | Copy2 path path
  | Rmtree path

definition GITHUB_API_URL :: string where
  "GITHUB_API_URL = ''https://api.github.com/repos/coderroleggg/getstack-templates''"

definition GITHUB_REPO_URL :: string where
  "GITHUB_REPO_URL = ''https://github.com/coderroleggg/getstack-templates.git''"

text \<open>\<^verbatim>\<open>str(e)\<close> for the exceptions above (the errno numbers are those of Linux).\<close>

definition errno_code :: "errno \<Rightarrow> int" where
  "errno_code e = (case e of ENOENT \<Rightarrow> 2 | EEXIST \<Rightarrow> 17 | ENOTDIR \<Rightarrow> 20 | EISDIR \<Rightarrow> 21)"

definition strerror :: "errno \<Rightarrow> string" where
  "strerror e = (case e of
       ENOENT \<Rightarrow> ''No such file or directory''
     | EEXIST \<Rightarrow> ''File exists''
     | ENOTDIR \<Rightarrow> ''Not a directory''
     | EISDIR \<Rightarrow> ''Is a directory'')"

definition quoted :: "string \<Rightarrow> string" where
  "quoted s = [CHR 0x27] @ s @ [CHR 0x27]"

definition str_exn :: "char \<Rightarrow> exn \<Rightarrow> string" where
  "str_exn sep x = (case x of
       OSError e p \<Rightarrow>
         ''[Errno '' @ str_int (errno_code e) @ ''] '' @ strerror e @ '': '' @ quoted (str_abs sep p)
     | SameFileError p q \<Rightarrow>
         quoted (str_abs sep p) @ '' and '' @ quoted (str_abs sep q) @ '' are the same file''
     | RuntimeError m \<Rightarrow> m
     | RequestException m \<Rightarrow> m
     | GitCommandError m \<Rightarrow> m
     | ValueError m \<Rightarrow> m
     | KeyError k \<Rightarrow> quoted k
     | AttributeError m \<Rightarrow> m
     | TypeError m \<Rightarrow> m)"

definition failure :: "string \<Rightarrow> result" where
  "failure msg = [(''success'', PBool False), (''error'', PStr msg)]"

section \<open>\<^verbatim>\<open>get_templates\<close>\<close>

definition type_name :: "pyval \<Rightarrow> string" where
  "type_name v = (case v of
       PNone \<Rightarrow> ''NoneType'' | PBool _ \<Rightarrow> ''bool'' | PInt _ \<Rightarrow> ''int'' | PFloat _ \<Rightarrow> ''float''
     | PStr _ \<Rightarrow> ''str'' | PList _ \<Rightarrow> ''list'' | PDict _ \<Rightarrow> ''dict'')"

text \<open>\<^verbatim>\<open>for item in contents\<close>: a list yields its elements, a dictionary its keys, a string
  its characters; nothing else is iterable.\<close>

definition py_iter :: "pyval \<Rightarrow> exn + pyval list" where
  "py_iter v = (case v of
       PList xs \<Rightarrow> Inr xs
     | PDict kvs \<Rightarrow> Inr (map (\<lambda>kv. PStr (fst kv)) kvs)
     | PStr s \<Rightarrow> Inr (map (\<lambda>c. PStr [c]) s)
     | _ \<Rightarrow> Inl (TypeError (quoted (type_name v) @ '' object is not iterable'')))"

text \<open>\<^verbatim>\<open>item.get(key)\<close> and \<^verbatim>\<open>item[key]\<close> on a parsed JSON value.\<close>

definition py_get :: "pyval \<Rightarrow> string \<Rightarrow> exn + pyval" where
  "py_get item k = (case item of
       PDict kvs \<Rightarrow> Inr (case map_of kvs k of None \<Rightarrow> PNone | Some v \<Rightarrow> v)
     | _ \<Rightarrow> Inl (AttributeError
               (quoted (type_name item) @ '' object has no attribute '' @ quoted ''get'')))"

definition py_index :: "pyval \<Rightarrow> string \<Rightarrow> exn + pyval" where
  "py_index item k = (case item of
       PDict kvs \<Rightarrow> (case map_of kvs k of None \<Rightarrow> Inl (KeyError k) | Some v \<Rightarrow> Inr v)
     | _ \<Rightarrow> Inl (TypeError ''indices must be integers''))"

text \<open>One round of the loop of lines 55 to 61: the descriptor appended for a directory
  entry, nothing for any other entry, or the exception raised.\<close>

definition template_of :: "pyval \<Rightarrow> exn + pyval list" where
  "template_of item =
     (case py_get item ''type'' of
        Inl x \<Rightarrow> Inl x
      | Inr t \<Rightarrow>
          if t = PStr ''dir'' then
            (case py_index item ''name'' of Inl x \<Rightarrow> Inl x | Inr n \<Rightarrow>
             case py_index item ''path'' of Inl x \<Rightarrow> Inl x | Inr p \<Rightarrow>
             case py_index item ''html_url'' of Inl x \<Rightarrow> Inl x | Inr u \<Rightarrow>
               Inr [PDict [(''name'', n), (''path'', p), (''url'', u)]])
          else Inr [])"

fun collect_templates :: "pyval list \<Rightarrow> pyval list \<Rightarrow> exn + pyval list" where
  "collect_templates [] templates = Inr templates"
| "collect_templates (item # items) templates =
     (case template_of item of
        Inl x \<Rightarrow> Inl x
      | Inr ts \<Rightarrow> collect_templates items (templates @ ts))"

text \<open>The body of the \<^verbatim>\<open>try\<close>, then the tool with its two handlers.\<close>

definition get_templates_try :: "env \<Rightarrow> exn + result" where
  "get_templates_try env =
     (case http_get env (GITHUB_API_URL @ ''/contents/'') of
        RequestFailed m \<Rightarrow> Inl (RequestException m)
      | Response status b \<Rightarrow>
          if status \<noteq> 200 then
            Inr (failure (''Failed to fetch repository contents. Status code: '' @ str_int status))
          else (case b of
             NotJson x \<Rightarrow> Inl x
           | Json contents \<Rightarrow>
               (case py_iter contents of
                  Inl x \<Rightarrow> Inl x
                | Inr items \<Rightarrow>
                    (case collect_templates items [] of
                       Inl x \<Rightarrow> Inl x
                     | Inr templates \<Rightarrow>
                         Inr [(''success'', PBool True),
                              (''templates'', PList templates),
                              (''count'', PInt (int (length templates)))]))))"

definition get_templates :: "env \<Rightarrow> result" where
  "get_templates env =
     (case get_templates_try env of
        Inr r \<Rightarrow> r
      | Inl (RequestException m) \<Rightarrow> failure (''Network error: '' @ m)
      | Inl x \<Rightarrow> failure (str_exn (path_sep env) x))"

section \<open>\<^verbatim>\<open>use_template\<close>\<close>

text \<open>\<^verbatim>\<open>Path(current_folder).expanduser().absolute()\<close>.\<close>

definition target_path_of :: "env \<Rightarrow> string \<Rightarrow> exn + path" where
  "target_path_of env current_folder =
     (let parts = path_parts (path_sep env) current_folder in
      if is_absolute (path_sep env) current_folder then Inr parts
      else (case parts of
         (CHR ''~'' # user) # rest \<Rightarrow>
           (case home_of env (CHR ''~'' # user) of
              None \<Rightarrow> Inl (RuntimeError ''Could not determine home directory.'')
            | Some h \<Rightarrow> Inr (h @ rest))
       | _ \<Rightarrow> Inr (cwd env @ parts)))"

text \<open>\<^verbatim>\<open>temp_path / template_name\<close>: an absolute right operand replaces the left one.\<close>

definition template_path_of :: "env \<Rightarrow> path \<Rightarrow> string \<Rightarrow> path" where
  "template_path_of env temp_path template_name =
     (if is_absolute (path_sep env) template_name then path_parts (path_sep env) template_name
      else temp_path @ path_parts (path_sep env) template_name)"

text \<open>\<^verbatim>\<open>tempfile.mkdtemp\<close>: the first candidate name that does not exist yet is created.\<close>

fun mkdtemp :: "path \<Rightarrow> string list \<Rightarrow> node \<Rightarrow> exn + path \<times> node" where
  "mkdtemp d [] fs = Inl (OSError EEXIST d)"
| "mkdtemp d (n # ns) fs =
     (case os_mkdir (d @ [n]) fs of
        Inr fs' \<Rightarrow> Inr (d @ [n], fs')
      | Inl e \<Rightarrow> if e = EEXIST then mkdtemp d ns fs else Inl (OSError e (d @ [n])))"

text \<open>
  One round of the loop of lines 153 to 166, for the item \<open>template_path @ rel\<close>: the
  names appended to \<^verbatim>\<open>copied_files\<close> or the exception raised, the file system, and the
  calls made.
\<close>

definition copy_item ::
  "env \<Rightarrow> path \<Rightarrow> path \<Rightarrow> path \<Rightarrow> node \<Rightarrow> (exn + string list) \<times> node \<times> call list" where
  "copy_item env template_path target_path rel fs =
     (if is_file fs (template_path @ rel) then
        (let target_file = target_path @ rel;
             parent = butlast target_file in
         case mkdir_parents parent fs of
           (Some x, fs1) \<Rightarrow> (Inl x, fs1, [Mkdirs parent])
         | (None, fs1) \<Rightarrow>
             (case copy2 (template_path @ rel) target_file fs1 of
                (Some x, fs2) \<Rightarrow>
                  (Inl x, fs2, [Mkdirs parent, Copy2 (template_path @ rel) target_file])
              | (None, fs2) \<Rightarrow>
                  (Inr [str_rel (path_sep env) rel], fs2,
                   [Mkdirs parent, Copy2 (template_path @ rel) target_file])))
      else (Inr [], fs, []))"

fun copy_loop ::
  "env \<Rightarrow> path \<Rightarrow> path \<Rightarrow> path list \<Rightarrow> string list \<Rightarrow> node \<Rightarrow>
     (exn + string list) \<times> node \<times> call list" where
  "copy_loop env template_path target_path [] copied_files fs = (Inr copied_files, fs, [])"
| "copy_loop env template_path target_path (rel # rels) copied_files fs =
     (case copy_item env template_path target_path rel fs of
        (Inl x, fs1, cs) \<Rightarrow> (Inl x, fs1, cs)
      | (Inr new, fs1, cs) \<Rightarrow>
          (case copy_loop env template_path target_path rels (copied_files @ new) fs1 of
             (r, fs2, cs') \<Rightarrow> (r, fs2, cs @ cs')))"

text \<open>The body of the \<^verbatim>\<open>with\<close> block, lines 131 to 176, for the workspace \<open>temp_path\<close>.\<close>

definition in_workspace ::
  "env \<Rightarrow> string \<Rightarrow> path \<Rightarrow> path \<Rightarrow> node \<Rightarrow> (exn + result) \<times> node \<times> call list" where
  "in_workspace env template_name target_path temp_path fs =
     (case clone_from env of
        CloneFailed m es \<Rightarrow>
          (Inl (GitCommandError m), modify_dir temp_path (\<lambda>_. es) fs,
           [CloneFrom GITHUB_REPO_URL temp_path])
      | Cloned es \<Rightarrow>
          (let fs1 = modify_dir temp_path (\<lambda>_. es) fs;
               template_path = template_path_of env temp_path template_name in
           case stat fs1 template_path of
             Inr (Dir tes) \<Rightarrow>
               (case copy_loop env template_path target_path (rglob (Dir tes)) [] fs1 of
                  (Inl x, fs2, cs) \<Rightarrow> (Inl x, fs2, CloneFrom GITHUB_REPO_URL temp_path # cs)
                | (Inr copied_files, fs2, cs) \<Rightarrow>
                    (Inr [(''success'', PBool True),
                          (''template_name'', PStr template_name),
                          (''target_folder'', PStr (str_abs (path_sep env) target_path)),
                          (''files_copied'', PInt (int (length copied_files))),
                          (''files'', PList (map PStr copied_files))],
                     fs2, CloneFrom GITHUB_REPO_URL temp_path # cs))
           | _ \<Rightarrow>
               (Inr (failure (''Template '' @ quoted template_name @
                              '' not found in the cloned repository'')),
                fs1, [CloneFrom GITHUB_REPO_URL temp_path])))"

text \<open>
  The body of the \<^verbatim>\<open>try\<close> of lines 95 to 176. Leaving the \<^verbatim>\<open>with\<close> block, by
  \<^verbatim>\<open>return\<close> or by an exception, removes the workspace.
\<close>

definition use_template_try ::
  "env \<Rightarrow> string \<Rightarrow> string \<Rightarrow> node \<Rightarrow> (exn + result) \<times> node \<times> call list" where
  "use_template_try env template_name current_folder fs =
     (if template_name = [] then (Inr (failure ''Template name is required''), fs, [])
      else if current_folder = [] then (Inr (failure ''Target folder is required''), fs, [])
      else case target_path_of env current_folder of
        Inl x \<Rightarrow> (Inl x, fs, [])
      | Inr target_path \<Rightarrow>
          (case mkdir_parents target_path fs of
             (Some x, fs1) \<Rightarrow> (Inl x, fs1, [Mkdirs target_path])
           | (None, fs1) \<Rightarrow>
               (let url = GITHUB_API_URL @ ''/contents/'' @ template_name;
                    cs = [Mkdirs target_path, HttpGet url] in
                case http_get env url of
                  RequestFailed m \<Rightarrow> (Inl (RequestException m), fs1, cs)
                | Response status _ \<Rightarrow>
                    if status = 404 then
                      (Inr (failure (''Template '' @ quoted template_name @
                                     '' not found in the repository'')), fs1, cs)
                    else if status \<noteq> 200 then
                      (Inr (failure (''Failed to check template. Status code: '' @
                                     str_int status)), fs1, cs)
                    else (case mkdtemp (tmpdir env) (tmp_names env) fs1 of
                       Inl x \<Rightarrow> (Inl x, fs1, cs @ [Mkdtemp])
                     | Inr (temp_path, fs2) \<Rightarrow>
                         (case in_workspace env template_name target_path temp_path fs2 of
                            (r, fs3, cs') \<Rightarrow>
                              (r, rmtree temp_path fs3,
                               cs @ [Mkdtemp] @ cs' @ [Rmtree temp_path]))))))"

definition use_template ::
  "env \<Rightarrow> string \<Rightarrow> string \<Rightarrow> node \<Rightarrow> result \<times> node \<times> call list" where
  "use_template env template_name current_folder fs =
     (case use_template_try env template_name current_folder fs of
        (Inr r, fs', cs) \<Rightarrow> (r, fs', cs)
      | (Inl x, fs', cs) \<Rightarrow> (failure (str_exn (path_sep env) x), fs', cs))"

section \<open>Observations and examples\<close>

text \<open>
  What a path shows to \<^verbatim>\<open>stat\<close>: an error, a directory (\<open>None\<close>) or a regular file with
  its bytes. \<open>read_file\<close> is the content of the regular file at a path, if there is one.
\<close>

fun look :: "node \<Rightarrow> path \<Rightarrow> errno + string option" where
  "look n [] = Inr (case n of File c \<Rightarrow> Some c | Dir _ \<Rightarrow> None)"
| "look (File _) (c # cs) = Inl ENOTDIR"
| "look (Dir es) (c # cs) = (case map_of es c of None \<Rightarrow> Inl ENOENT | Some n \<Rightarrow> look n cs)"

definition read_file :: "node \<Rightarrow> path \<Rightarrow> string option" where
  "read_file fs p = (case look fs p of Inr (Some c) \<Rightarrow> Some c | _ \<Rightarrow> None)"

text \<open>A result is structured when it is a failure dictionary or reports success.\<close>

definition structured :: "result \<Rightarrow> bool" where
  "structured r = ((\<exists>msg. r = failure msg) \<or> map_of r ''success'' = Some (PBool True))"



text \<open>A small repository, a host file system and a POSIX environment to run the tools on.\<close>

definition example_repo :: entries where
  "example_repo =
     [(''README.md'', File ''# templates''),
      (''fastapi-starter'',
         Dir [(''main.py'', File ''print(1)''),
              (''app'', Dir [(''routes.py'', File ''routes'')])])]"

definition example_fs :: node where
  "example_fs =
     Dir [(''tmp'', Dir [(''tmpa'', File ''x'')]), (''home'', Dir [(''me'', Dir [])])]"

definition example_catalog :: pyval where
  "example_catalog = PList
     [PDict [(''name'', PStr ''fastapi-starter''), (''path'', PStr ''fastapi-starter''),
             (''type'', PStr ''dir''),
             (''html_url'', PStr ''https://github.com/t/fastapi-starter'')],
      PDict [(''name'', PStr ''README.md''), (''path'', PStr ''README.md''),
             (''type'', PStr ''file''),
             (''html_url'', PStr ''https://github.com/t/README.md'')]]"

definition posix_env :: env where
  "posix_env =
     \<lparr> path_sep = CHR ''/'',
       home_of = (\<lambda>u. if u = ''~'' then Some [''home'', ''me''] else None),
       cwd = [''home'', ''me''],
       http_get = (\<lambda>u.
         if u = GITHUB_API_URL @ ''/contents/'' then Response 200 (Json example_catalog)
         else if u = GITHUB_API_URL @ ''/contents/fastapi-starter''
           then Response 200 (Json PNone)
         else if u = GITHUB_API_URL @ ''/contents/broken''
           then Response 503 (NotJson (ValueError ''no json''))
         else Response 404 (Json PNone)),
       tmpdir = [''tmp''],
       tmp_names = [''tmpa'', ''tmpb''],
       clone_from = Cloned example_repo \<rparr>"

definition failing_clone_env :: env where
  "failing_clone_env =
     posix_env \<lparr> clone_from := CloneFailed ''fatal: unable to access'' [(''.git'', Dir [])] \<rparr>"

definition offline_env :: env where
  "offline_env = posix_env \<lparr> http_get := (\<lambda>u. RequestFailed ''connection refused'') \<rparr>"

declare mkdir_parents.simps [simp del]
declare digits.simps [simp del]

text \<open>
  \<open>dirs_made p fs fs'\<close>: from \<open>fs\<close> to \<open>fs'\<close> every path shows what it showed, but for
  directories that were missing and lie on the way to \<open>p\<close>.
\<close>

definition dirs_made :: "path \<Rightarrow> node \<Rightarrow> node \<Rightarrow> bool" where
  "dirs_made p fs fs' =
     (\<forall>q. look fs' q = look fs q
          \<or> (look fs q = Inl ENOENT \<and> look fs' q = Inr None \<and> prefix q p))"

text \<open>The calls the copy loop makes.\<close>

definition is_loop_call :: "call \<Rightarrow> bool" where
  "is_loop_call c = (case c of Mkdirs _ \<Rightarrow> True | Copy2 _ _ \<Rightarrow> True | _ \<Rightarrow> False)"

definition is_copy_call :: "call \<Rightarrow> bool" where
  "is_copy_call c = (case c of Copy2 _ _ \<Rightarrow> True | _ \<Rightarrow> False)"

text \<open>The dictionary \<^verbatim>\<open>use_template\<close> returns on success.\<close>

definition success_result :: "env \<Rightarrow> string \<Rightarrow> path \<Rightarrow> string list \<Rightarrow> result" where
  "success_result env template_name target_path copied_files =
     [(''success'', PBool True),
      (''template_name'', PStr template_name),
      (''target_folder'', PStr (str_abs (path_sep env) target_path)),
      (''files_copied'', PInt (int (length copied_files))),
      (''files'', PList (map PStr copied_files))]"

text \<open>A target directory that already holds a regular file named \<^verbatim>\<open>app\<close>.\<close>

definition occupied_fs :: node where
  "occupied_fs =
     Dir [(''tmp'', Dir [(''proj'', Dir [(''app'', File ''notes'')])]),
          (''home'', Dir [(''me'', Dir [])])]"

text \<open>No directory lists a name twice.\<close>

fun wf_node :: "node \<Rightarrow> bool" where
  "wf_node (File c) = True"
| "wf_node (Dir es) = (distinct (map fst es) \<and> (\<forall>e \<in> set es. wf_node (snd e)))"

text \<open>
  The regular files of a tree in depth-first order, relative to its root: first the
  files the directory lists itself, in the order it lists them, then, for each of its
  entries in that order, the files below it.
\<close>

definition is_regular :: "node \<Rightarrow> bool" where
  "is_regular n = (case n of File _ \<Rightarrow> True | Dir _ \<Rightarrow> False)"

fun walk_files :: "node \<Rightarrow> path list" where
  "walk_files (File c) = []"
| "walk_files (Dir es) =
     map (\<lambda>e. [fst e]) (filter (\<lambda>e. is_regular (snd e)) es)
     @ concat (map (\<lambda>e. map ((#) (fst e)) (walk_files (snd e))) es)"







section \<open>Validation of the two arguments\<close>

text \<open>
  Claim C10. \<^verbatim>\<open>use_template\<close> tests \<^verbatim>\<open>template_name\<close> first: with an empty template name
  the result is the failure \<^verbatim>\<open>Template name is required\<close> whatever the target folder is,
  the empty one included, and neither the file system nor the network is touched.
\<close>

theorem template_name_checked_first:
  "use_template env [] current_folder fs = (failure ''Template name is required'', fs, [])"
  by (simp add: use_template_def use_template_try_def)

theorem template_name_checked_first_witness:
  "use_template posix_env [] [] example_fs
     = (failure ''Template name is required'', example_fs, [])"
  by (rule template_name_checked_first)

text \<open>
  Claim C7. With a template name and an empty target folder the result is the failure
  \<^verbatim>\<open>Target folder is required\<close> and no call is made: no request, no directory created.
  More generally, when either argument is empty the tool returns a failure having made
  no call and leaving the file system as it was.
\<close>

theorem validation_before_effects:
  "(template_name \<noteq> [] \<longrightarrow>
      use_template env template_name [] fs = (failure ''Target folder is required'', fs, []))
   \<and> (template_name = [] \<or> current_folder = [] \<longrightarrow>
      snd (use_template env template_name current_folder fs) = (fs, [])
      \<and> (\<exists>msg. fst (use_template env template_name current_folder fs) = failure msg))"
  by (auto simp: use_template_def use_template_try_def)

theorem validation_before_effects_witness:
  "use_template posix_env ''fastapi-starter'' [] example_fs
     = (failure ''Target folder is required'', example_fs, [])
   \<and> snd (use_template posix_env ''fastapi-starter'' [] example_fs) = (example_fs, [])"
  using validation_before_effects [of "''fastapi-starter''" posix_env example_fs "[]"]
  by simp

section \<open>The catalog\<close>





section \<open>Exceptions stop at the tool boundary\<close>

lemma structured_failure: "structured (failure msg)"
  by (auto simp: structured_def)

lemma in_workspace_structured:
  assumes "in_workspace env tn target tmp fs = (Inr r, fs', cs)"
  shows "structured r"
proof (cases "clone_from env")
  case (CloneFailed m es)
  with assms show ?thesis by (simp add: in_workspace_def)
next
  case (Cloned es)
  show ?thesis
  proof (cases "stat (modify_dir tmp (\<lambda>_. es) fs) (template_path_of env tmp tn)")
    case (Inl e)
    with assms Cloned show ?thesis
      by (auto simp: in_workspace_def Let_def structured_failure)
  next
    case (Inr n)
    show ?thesis
    proof (cases n)
      case (File c)
      with assms Cloned Inr show ?thesis
        by (auto simp: in_workspace_def Let_def structured_failure)
    next
      case (Dir tes)
      obtain out fs2 cs2 where loop:
        "copy_loop env (template_path_of env tmp tn) target (rglob (Dir tes)) []
           (modify_dir tmp (\<lambda>_. es) fs) = (out, fs2, cs2)"
        by (cases "copy_loop env (template_path_of env tmp tn) target (rglob (Dir tes)) []
           (modify_dir tmp (\<lambda>_. es) fs)") auto
      with assms Cloned Inr Dir show ?thesis
        by (cases out) (auto simp: in_workspace_def Let_def structured_def simp del: rglob.simps)
    qed
  qed
qed

lemma use_template_try_structured:
  assumes "use_template_try env tn cf fs = (Inr r, fs', cs)"
  shows "structured r"
proof -
  consider (a) "tn = []" | (b) "tn \<noteq> []" "cf = []" | (c) "tn \<noteq> []" "cf \<noteq> []" by blast
  then show ?thesis
  proof cases
    case a
    with assms show ?thesis by (auto simp: use_template_try_def structured_failure)
  next
    case b
    with assms show ?thesis by (auto simp: use_template_try_def structured_failure)
  next
    case c
    show ?thesis
    proof (cases "target_path_of env cf")
      case (Inl x)
      with assms c show ?thesis by (simp add: use_template_try_def)
    next
      case target: (Inr target)
      obtain mx fs1 where mk: "mkdir_parents target fs = (mx, fs1)"
        by (cases "mkdir_parents target fs") auto
      show ?thesis
      proof (cases mx)
        case (Some x)
        with assms c target mk show ?thesis by (simp add: use_template_try_def)
      next
        case None
        show ?thesis
        proof (cases "http_get env (GITHUB_API_URL @ ''/contents/'' @ tn)")
          case (RequestFailed m)
          with assms c target mk None show ?thesis
            by (simp add: use_template_try_def Let_def)
        next
          case (Response status b)
          show ?thesis
          proof (cases "status = 200")
            case False
            with assms c target mk None Response show ?thesis
              by (auto simp: use_template_try_def Let_def structured_failure split: if_splits)
          next
            case True
            show ?thesis
            proof (cases "mkdtemp (tmpdir env) (tmp_names env) fs1")
              case (Inl x)
              with assms c target mk None Response True show ?thesis
                by (simp add: use_template_try_def Let_def)
            next
              case (Inr tf)
              obtain tmp fs2 where tf: "tf = (tmp, fs2)" by (cases tf) auto
              obtain out fs3 cs3 where w: "in_workspace env tn target tmp fs2 = (out, fs3, cs3)"
                by (cases "in_workspace env tn target tmp fs2") auto
              from assms c target mk None Response True Inr tf w
              have "out = Inr r" by (simp add: use_template_try_def Let_def)
              with w show ?thesis by (auto dest: in_workspace_structured)
            qed
          qed
        qed
      qed
    qed
  qed
qed

lemma get_templates_try_structured:
  "get_templates_try env = Inr r \<Longrightarrow> structured r"
  by (auto simp: get_templates_try_def structured_def
           split: if_splits sum.splits http_outcome.splits body.splits)

text \<open>
  Claim C5. Neither tool lets an exception out. Whatever the body of the \<^verbatim>\<open>try\<close> of
  \<^verbatim>\<open>use_template\<close> raises becomes the failure \<^verbatim>\<open>{success: False, error: str(e)}\<close>, and what
  it returns is returned as it is; whatever the body of \<^verbatim>\<open>get_templates\<close> raises becomes
  a failure as well. Every result of either tool is structured: it is a failure
  dictionary of exactly that shape, or it reports success.
\<close>

theorem no_exception_escapes:
  "(case use_template_try env template_name current_folder fs of
      (Inr r, fs', cs) \<Rightarrow> use_template env template_name current_folder fs = (r, fs', cs)
    | (Inl x, fs', cs) \<Rightarrow>
        use_template env template_name current_folder fs
          = (failure (str_exn (path_sep env) x), fs', cs))
   \<and> (case get_templates_try env of
        Inr r \<Rightarrow> get_templates env = r
      | Inl x \<Rightarrow> (\<exists>msg. get_templates env = failure msg))
   \<and> structured (fst (use_template env template_name current_folder fs))
   \<and> structured (get_templates env)"
proof (intro conjI)
  show "case use_template_try env template_name current_folder fs of
      (Inr r, fs', cs) \<Rightarrow> use_template env template_name current_folder fs = (r, fs', cs)
    | (Inl x, fs', cs) \<Rightarrow>
        use_template env template_name current_folder fs
          = (failure (str_exn (path_sep env) x), fs', cs)"
    by (simp add: use_template_def split: prod.splits sum.splits)
  show "case get_templates_try env of
        Inr r \<Rightarrow> get_templates env = r
      | Inl x \<Rightarrow> (\<exists>msg. get_templates env = failure msg)"
    by (auto simp: get_templates_def split: sum.splits exn.splits)
  show "structured (fst (use_template env template_name current_folder fs))"
    by (auto simp: use_template_def structured_def
             dest: use_template_try_structured [unfolded structured_def]
             split: prod.splits sum.splits)
  show "structured (get_templates env)"
    by (auto simp: get_templates_def structured_def
             dest: get_templates_try_structured [unfolded structured_def]
             split: sum.splits exn.splits)
qed

theorem no_exception_escapes_witness:
  "fst (use_template_try failing_clone_env ''fastapi-starter'' ''/tmp/proj'' example_fs)
      = Inl (GitCommandError ''fatal: unable to access'')
   \<and> fst (use_template failing_clone_env ''fastapi-starter'' ''/tmp/proj'' example_fs)
      = failure ''fatal: unable to access''
   \<and> get_templates_try offline_env = Inl (RequestException ''connection refused'')
   \<and> get_templates offline_env = failure ''Network error: connection refused''"
proof -
  have a: "fst (use_template_try failing_clone_env ''fastapi-starter'' ''/tmp/proj'' example_fs)
      = Inl (GitCommandError ''fatal: unable to access'')"
    by code_simp
  have b: "get_templates_try offline_env = Inl (RequestException ''connection refused'')"
    by (simp add: get_templates_try_def offline_env_def)
  have c: "get_templates offline_env = failure ''Network error: connection refused''"
    by (simp add: get_templates_def b)
  from a no_exception_escapes [of failing_clone_env "''fastapi-starter''" "''/tmp/proj''" example_fs]
  have "fst (use_template failing_clone_env ''fastapi-starter'' ''/tmp/proj'' example_fs)
      = failure ''fatal: unable to access''"
    by (auto simp: str_exn_def split: prod.splits sum.splits)
  with a b c show ?thesis by simp
qed


section \<open>What a path shows\<close>

lemma look_stat:
  "look fs p = (case stat fs p of Inl e \<Rightarrow> Inl e | Inr (File c) \<Rightarrow> Inr (Some c) | Inr (Dir _) \<Rightarrow> Inr None)"
  by (induction fs p rule: look.induct) (auto split: option.splits node.splits)

lemma is_dir_look: "is_dir fs p \<longleftrightarrow> look fs p = Inr None"
  by (auto simp: is_dir_def look_stat split: sum.splits node.splits)

lemma is_file_look: "is_file fs p \<longleftrightarrow> (\<exists>c. look fs p = Inr (Some c))"
  by (auto simp: is_file_def look_stat split: sum.splits node.splits)

lemma exists_look: "exists_path fs p \<longleftrightarrow> (\<exists>k. look fs p = Inr k)"
  by (auto simp: exists_path_def look_stat split: sum.splits node.splits)

lemma stat_append: "stat fs p = Inr n \<Longrightarrow> stat fs (p @ q) = stat n q"
  by (induction fs p rule: stat.induct) (auto split: option.splits)

lemma look_append: "stat fs p = Inr n \<Longrightarrow> look fs (p @ q) = look n q"
  by (simp add: look_stat stat_append)

lemma stat_prefix_dir:
  "stat fs (p @ q) = Inr n \<Longrightarrow> q \<noteq> [] \<Longrightarrow> \<exists>es. stat fs p = Inr (Dir es)"
proof (induction fs p rule: stat.induct)
  case (1 n)
  then show ?case by (cases n; cases q) auto
qed (auto split: option.splits)

lemma look_prefix_dir: "look fs (p @ q) = Inr k \<Longrightarrow> q \<noteq> [] \<Longrightarrow> look fs p = Inr None"
  using stat_prefix_dir [of fs p q]
  by (auto simp: look_stat split: sum.splits node.splits)

lemma look_below_missing: "look fs p = Inl ENOENT \<Longrightarrow> look fs (p @ q) = Inl ENOENT"
  by (induction fs p rule: look.induct) (auto split: option.splits)


section \<open>Rewriting one directory\<close>

lemma map_entry_id: "(\<And>v. map_of es k = Some v \<Longrightarrow> g v = v) \<Longrightarrow> AList.map_entry k g es = es"
  by (induction es) (auto split: if_splits)

lemma modify_not_dir: "\<not> is_dir fs d \<Longrightarrow> modify_dir d f fs = fs"
proof (induction d arbitrary: fs)
  case Nil
  then show ?case by (cases fs) (auto simp: is_dir_def)
next
  case (Cons c cs)
  show ?case
  proof (cases fs)
    case (File x)
    then show ?thesis by simp
  next
    case (Dir es)
    have "AList.map_entry c (modify_dir cs f) es = es"
    proof (rule map_entry_id)
      fix v assume "map_of es c = Some v"
      with Cons.prems Dir have "\<not> is_dir v cs" by (simp add: is_dir_def)
      then show "modify_dir cs f v = v" by (rule Cons.IH)
    qed
    with Dir show ?thesis by simp
  qed
qed




lemma stat_modify_under:
  "stat fs d = Inr (Dir es) \<Longrightarrow> stat (modify_dir d f fs) (d @ r) = stat (Dir (f es)) r"
proof (induction d arbitrary: fs)
  case Nil
  then show ?case by simp
next
  case (Cons c cs)
  then show ?case
    by (cases fs) (auto simp: map_of_map_entry split: option.splits)
qed

lemma look_modify_under:
  "stat fs d = Inr (Dir es) \<Longrightarrow> look (modify_dir d f fs) (d @ r) = look (Dir (f es)) r"
  by (simp add: look_stat stat_modify_under)

lemma look_modify_other:
  "\<not> prefix d q \<Longrightarrow> look (modify_dir d f fs) q = look fs q"
proof (induction d arbitrary: fs q)
  case Nil
  then show ?case by simp
next
  case step: (Cons c cs)
  show ?case
  proof (cases fs)
    case (File x)
    then show ?thesis by simp
  next
    case (Dir es)
    show ?thesis
    proof (cases q)
      case Nil
      with Dir show ?thesis by simp
    next
      case (Cons c' qs)
      with Dir step show ?thesis
        by (auto simp: map_of_map_entry split: option.splits)
    qed
  qed
qed

section \<open>\<^verbatim>\<open>mkdir\<close>\<close>

lemma os_mkdir_Inr:
  assumes "os_mkdir p fs = Inr fs'"
  obtains es where "p \<noteq> []" "stat fs (butlast p) = Inr (Dir es)" "map_of es (last p) = None"
    "fs' = modify_dir (butlast p) (\<lambda>es. es @ [(last p, Dir [])]) fs"
  using assms
  by (auto simp: os_mkdir_def split: if_splits sum.splits node.splits option.splits)

lemma look_new_dir:
  "map_of es n = None \<Longrightarrow>
     look (Dir (es @ [(n, Dir [])])) r = (if r = [n] then Inr None else look (Dir es) r)"
proof (cases r)
  case Nil
  then show ?thesis by simp
next
  case (Cons c rs)
  assume "map_of es n = None"
  with Cons show ?thesis
    by (cases rs) (auto simp: map_add_def split: option.splits)
qed

lemma os_mkdir_look:
  assumes "os_mkdir p fs = Inr fs'"
  shows "look fs' q = (if q = p then Inr None else look fs q)" and "look fs p = Inl ENOENT"
proof -
  from assms obtain es where p: "p \<noteq> []" and st: "stat fs (butlast p) = Inr (Dir es)"
    and fresh: "map_of es (last p) = None"
    and fs': "fs' = modify_dir (butlast p) (\<lambda>es. es @ [(last p, Dir [])]) fs"
    by (rule os_mkdir_Inr)
  from p have pp: "butlast p @ [last p] = p" by simp
  have "look fs (butlast p @ [last p]) = look (Dir es) [last p]"
    using st by (rule look_append)
  with fresh pp show "look fs p = Inl ENOENT" by simp
  show "look fs' q = (if q = p then Inr None else look fs q)"
  proof (cases "prefix (butlast p) q")
    case True
    then obtain r where q: "q = butlast p @ r" by (auto simp: prefix_def)
    have "look fs' q = look (Dir (es @ [(last p, Dir [])])) r"
      unfolding fs' q using st by (rule look_modify_under)
    also have "\<dots> = (if r = [last p] then Inr None else look (Dir es) r)"
      using fresh by (rule look_new_dir)
    also have "look (Dir es) r = look fs q"
      unfolding q using st by (rule look_append [symmetric])
    finally have "look fs' q = (if r = [last p] then Inr None else look fs q)" .
    moreover have "r = [last p] \<longleftrightarrow> q = p"
    proof
      assume "r = [last p]" with q pp show "q = p" by simp
    next
      assume "q = p" with q pp have "butlast p @ r = butlast p @ [last p]" by simp
      then show "r = [last p]" by simp
    qed
    ultimately show ?thesis by simp
  next
    case False
    have "prefix (butlast p) p" using pp by (metis prefixI)
    with False have "q \<noteq> p" by auto
    with False show ?thesis by (simp add: fs' look_modify_other)
  qed
qed



lemma os_mkdir_ENOENT:
  "os_mkdir p fs = Inl ENOENT \<Longrightarrow> look fs (butlast p) = Inl ENOENT"
  by (auto simp: os_mkdir_def look_stat split: if_splits sum.splits node.splits option.splits)

lemma mkdir_parents_made:
  "os_mkdir p fs = Inr fs' \<Longrightarrow> mkdir_parents p fs = (None, fs')"
  by (subst mkdir_parents.simps) simp

lemma mkdir_parents_refused:
  "os_mkdir p fs = Inl e \<Longrightarrow> e \<noteq> ENOENT \<Longrightarrow>
     mkdir_parents p fs = (if is_dir fs p then (None, fs) else (Some (OSError e p), fs))"
  by (subst mkdir_parents.simps) simp

lemma mkdir_parents_missing:
  "os_mkdir p fs = Inl ENOENT \<Longrightarrow>
     mkdir_parents p fs =
       (case mkdir_parents (butlast p) fs of
          (Some x, fs1) \<Rightarrow> (Some x, fs1)
        | (None, fs1) \<Rightarrow> mkdir_exist_ok p fs1)"
proof -
  assume a: "os_mkdir p fs = Inl ENOENT"
  then have "p \<noteq> []" by (auto simp: os_mkdir_def)
  with a show ?thesis by (subst mkdir_parents.simps) simp
qed


lemma dirs_madeD:
  "dirs_made p fs fs' \<Longrightarrow>
     look fs' q = look fs q \<or> (look fs q = Inl ENOENT \<and> look fs' q = Inr None \<and> prefix q p)"
  by (simp add: dirs_made_def)

lemma dirs_made_refl: "dirs_made p fs fs"
  by (simp add: dirs_made_def)

lemma dirs_made_trans:
  assumes "dirs_made p a b" and "dirs_made p' b c" and "prefix p p'"
  shows "dirs_made p' a c"
  unfolding dirs_made_def
proof
  fix q
  from dirs_madeD [OF assms(1), of q] dirs_madeD [OF assms(2), of q] assms(3)
  show "look c q = look a q \<or> (look a q = Inl ENOENT \<and> look c q = Inr None \<and> prefix q p')"
    by (auto intro: prefix_order.trans)
qed

lemma os_mkdir_dirs_made: "os_mkdir p fs = Inr fs' \<Longrightarrow> dirs_made p fs fs'"
  unfolding dirs_made_def by (auto simp: os_mkdir_look)

lemma mkdir_exist_ok_dirs_made: "mkdir_exist_ok p fs = (x, fs') \<Longrightarrow> dirs_made p fs fs'"
  by (auto simp: mkdir_exist_ok_def dirs_made_refl os_mkdir_dirs_made
           split: sum.splits if_splits)

lemma mkdir_parents_dirs_made: "mkdir_parents p fs = (x, fs') \<Longrightarrow> dirs_made p fs fs'"
proof (induction p fs arbitrary: x fs' rule: mkdir_parents.induct)
  case (1 p fs)
  show ?case
  proof (cases "os_mkdir p fs")
    case (Inr f)
    with "1.prems" show ?thesis
      by (auto simp: mkdir_parents_made os_mkdir_dirs_made)
  next
    case (Inl e)
    show ?thesis
    proof (cases "e = ENOENT")
      case False
      with Inl "1.prems" show ?thesis
        by (auto simp: mkdir_parents_refused dirs_made_refl split: if_splits)
    next
      case True
      with Inl have p: "p \<noteq> []" by (auto simp: os_mkdir_def)
      then have pre: "prefix (butlast p) p" by (metis append_butlast_last_id prefixI)
      obtain y fs1 where rec: "mkdir_parents (butlast p) fs = (y, fs1)"
        by (cases "mkdir_parents (butlast p) fs") auto
      from True Inl p have a: "dirs_made (butlast p) fs fs1"
        using "1.IH" [OF Inl _ _ rec] by simp
      show ?thesis
      proof (cases y)
        case (Some z)
        with True Inl rec "1.prems" have "fs' = fs1" by (simp add: mkdir_parents_missing)
        with a pre show ?thesis using dirs_made_trans [OF a dirs_made_refl pre] by simp
      next
        case None
        with True Inl rec "1.prems" have "mkdir_exist_ok p fs1 = (x, fs')"
          by (simp add: mkdir_parents_missing)
        then have "dirs_made p fs1 fs'" by (rule mkdir_exist_ok_dirs_made)
        with a show ?thesis using pre by (rule dirs_made_trans)
      qed
    qed
  qed
qed

lemma dirs_made_read:
  assumes "dirs_made p fs fs'"
  shows "read_file fs' = read_file fs"
proof
  fix q
  from dirs_madeD [OF assms, of q] show "read_file fs' q = read_file fs q"
    by (auto simp: read_file_def)
qed

lemma dirs_made_is_dir: "dirs_made d fs fs' \<Longrightarrow> is_dir fs p \<Longrightarrow> is_dir fs' p"
  using dirs_madeD [of d fs fs' p] by (auto simp: is_dir_look)

lemma dirs_made_kept: "dirs_made d fs fs' \<Longrightarrow> look fs q = Inr k \<Longrightarrow> look fs' q = Inr k"
  using dirs_madeD [of d fs fs' q] by auto

lemma dirs_made_frame: "dirs_made d fs fs' \<Longrightarrow> \<not> prefix q d \<Longrightarrow> look fs' q = look fs q"
  using dirs_madeD [of d fs fs' q] by auto




section \<open>The workspace\<close>

lemma mkdtemp_made:
  "mkdtemp d ns fs = Inr (tmp, fs') \<Longrightarrow> \<exists>n. tmp = d @ [n] \<and> os_mkdir tmp fs = Inr fs'"
  by (induction ns) (auto split: sum.splits if_splits)

lemma rmtree_gone:
  assumes "p \<noteq> []"
  shows "look (rmtree p fs) (p @ r) = Inl ENOENT \<or> \<not> exists_path (rmtree p fs) (p @ r)"
proof (cases "is_dir fs (butlast p)")
  case True
  then obtain es where es: "stat fs (butlast p) = Inr (Dir es)"
    by (auto simp: is_dir_def split: sum.splits node.splits)
  from assms have pp: "p @ r = butlast p @ (last p # r)" by simp
  have "look (rmtree p fs) (p @ r) = look (Dir (AList.delete (last p) es)) (last p # r)"
    unfolding rmtree_def pp using es by (rule look_modify_under)
  then show ?thesis by (simp add: delete_conv')
next
  case False
  then have same: "rmtree p fs = fs" by (simp add: rmtree_def modify_not_dir)
  have "\<not> exists_path fs (p @ r)"
  proof
    assume "exists_path fs (p @ r)"
    moreover from assms have "p @ r = butlast p @ (last p # r)" by simp
    ultimately obtain k where "look fs (butlast p @ (last p # r)) = Inr k"
      by (auto simp: exists_look)
    then have "look fs (butlast p) = Inr None" by (rule look_prefix_dir) simp
    with False show False by (simp add: is_dir_look)
  qed
  with same show ?thesis by simp
qed

lemma rmtree_not_exists: "p \<noteq> [] \<Longrightarrow> \<not> exists_path (rmtree p fs) (p @ r)"
  using rmtree_gone [of p fs r] by (auto simp: exists_look)

lemma rmtree_other: "\<not> prefix p q \<Longrightarrow> p \<noteq> [] \<Longrightarrow> look (rmtree p fs) q = look fs q"
proof (cases "prefix (butlast p) q")
  case False
  then show ?thesis by (simp add: rmtree_def look_modify_other)
next
  case True
  assume np: "\<not> prefix p q" and p: "p \<noteq> []"
  from True obtain r where q: "q = butlast p @ r" by (auto simp: prefix_def)
  show ?thesis
  proof (cases "is_dir fs (butlast p)")
    case False
    then show ?thesis by (simp add: rmtree_def modify_not_dir)
  next
    case True
    then obtain es where es: "stat fs (butlast p) = Inr (Dir es)"
      by (auto simp: is_dir_def split: sum.splits node.splits)
    have a: "look (rmtree p fs) q = look (Dir (AList.delete (last p) es)) r"
      unfolding rmtree_def q using es by (rule look_modify_under)
    have b: "look fs q = look (Dir es) r"
      unfolding q using es by (rule look_append)
    have "r = [] \<or> hd r \<noteq> last p"
    proof (cases r)
      case Nil
      then show ?thesis by simp
    next
      case (Cons c rs)
      have "c \<noteq> last p"
      proof
        assume "c = last p"
        with Cons q p have "q = p @ rs" by simp
        with np show False by simp
      qed
      with Cons show ?thesis by simp
    qed
    then have "look (Dir (AList.delete (last p) es)) r = look (Dir es) r"
      by (cases r) (auto simp: delete_conv')
    with a b show ?thesis by simp
  qed
qed

section \<open>The steps of \<^verbatim>\<open>use_template\<close>\<close>

lemma use_template_try_cases [consumes 1, case_names no_name no_folder no_target no_mkdir
    no_answer not_found bad_status no_workspace workspace]:
  assumes "use_template_try env tn cf fs = (out, fs', cs)"
  obtains
    (no_name) "tn = []" "out = Inr (failure ''Template name is required'')" "fs' = fs" "cs = []"
  | (no_folder) "tn \<noteq> []" "cf = []" "out = Inr (failure ''Target folder is required'')"
      "fs' = fs" "cs = []"
  | (no_target) x where "tn \<noteq> []" "cf \<noteq> []" "target_path_of env cf = Inl x"
      "out = Inl x" "fs' = fs" "cs = []"
  | (no_mkdir) target x where "tn \<noteq> []" "cf \<noteq> []" "target_path_of env cf = Inr target"
      "mkdir_parents target fs = (Some x, fs')" "out = Inl x" "cs = [Mkdirs target]"
  | (no_answer) target m where "tn \<noteq> []" "cf \<noteq> []" "target_path_of env cf = Inr target"
      "mkdir_parents target fs = (None, fs')"
      "http_get env (GITHUB_API_URL @ ''/contents/'' @ tn) = RequestFailed m"
      "out = Inl (RequestException m)"
      "cs = [Mkdirs target, HttpGet (GITHUB_API_URL @ ''/contents/'' @ tn)]"
  | (not_found) target b where "tn \<noteq> []" "cf \<noteq> []" "target_path_of env cf = Inr target"
      "mkdir_parents target fs = (None, fs')"
      "http_get env (GITHUB_API_URL @ ''/contents/'' @ tn) = Response 404 b"
      "out = Inr (failure (''Template '' @ quoted tn @ '' not found in the repository''))"
      "cs = [Mkdirs target, HttpGet (GITHUB_API_URL @ ''/contents/'' @ tn)]"
  | (bad_status) target status b where "tn \<noteq> []" "cf \<noteq> []"
      "target_path_of env cf = Inr target" "mkdir_parents target fs = (None, fs')"
      "http_get env (GITHUB_API_URL @ ''/contents/'' @ tn) = Response status b"
      "status \<noteq> 404" "status \<noteq> 200"
      "out = Inr (failure (''Failed to check template. Status code: '' @ str_int status))"
      "cs = [Mkdirs target, HttpGet (GITHUB_API_URL @ ''/contents/'' @ tn)]"
  | (no_workspace) target b x where "tn \<noteq> []" "cf \<noteq> []"
      "target_path_of env cf = Inr target" "mkdir_parents target fs = (None, fs')"
      "http_get env (GITHUB_API_URL @ ''/contents/'' @ tn) = Response 200 b"
      "mkdtemp (tmpdir env) (tmp_names env) fs' = Inl x" "out = Inl x"
      "cs = [Mkdirs target, HttpGet (GITHUB_API_URL @ ''/contents/'' @ tn), Mkdtemp]"
  | (workspace) target b fs1 tmp fs2 fs3 cs' where "tn \<noteq> []" "cf \<noteq> []"
      "target_path_of env cf = Inr target" "mkdir_parents target fs = (None, fs1)"
      "http_get env (GITHUB_API_URL @ ''/contents/'' @ tn) = Response 200 b"
      "mkdtemp (tmpdir env) (tmp_names env) fs1 = Inr (tmp, fs2)"
      "in_workspace env tn target tmp fs2 = (out, fs3, cs')"
      "fs' = rmtree tmp fs3"
      "cs = [Mkdirs target, HttpGet (GITHUB_API_URL @ ''/contents/'' @ tn), Mkdtemp] @ cs'
            @ [Rmtree tmp]"
proof -
  consider (a) "tn = []" | (b) "tn \<noteq> []" "cf = []" | (c) "tn \<noteq> []" "cf \<noteq> []" by blast
  then show ?thesis
  proof cases
    case a
    with assms show ?thesis by (intro no_name) (auto simp: use_template_try_def)
  next
    case b
    with assms show ?thesis by (intro no_folder) (auto simp: use_template_try_def)
  next
    case c
    show ?thesis
    proof (cases "target_path_of env cf")
      case (Inl x)
      with assms c show ?thesis by (intro no_target [of x]) (auto simp: use_template_try_def)
    next
      case target: (Inr target)
      obtain mx fs1 where mk: "mkdir_parents target fs = (mx, fs1)"
        by (cases "mkdir_parents target fs") auto
      show ?thesis
      proof (cases mx)
        case (Some x)
        with assms c target mk show ?thesis
          by (intro no_mkdir [of target x]) (auto simp: use_template_try_def)
      next
        case None
        show ?thesis
        proof (cases "http_get env (GITHUB_API_URL @ ''/contents/'' @ tn)")
          case (RequestFailed m)
          with assms c target mk None show ?thesis
            by (intro no_answer [of target m]) (auto simp: use_template_try_def Let_def)
        next
          case (Response status b)
          consider (nf) "status = 404" | (bad) "status \<noteq> 404" "status \<noteq> 200" | (ok) "status = 200"
            by blast
          then show ?thesis
          proof cases
            case nf
            with assms c target mk None Response show ?thesis
              by (intro not_found [of target b]) (auto simp: use_template_try_def Let_def)
          next
            case bad
            with assms c target mk None Response show ?thesis
              by (intro bad_status [of target status b]) (auto simp: use_template_try_def Let_def)
          next
            case ok
            show ?thesis
            proof (cases "mkdtemp (tmpdir env) (tmp_names env) fs1")
              case (Inl x)
              with assms c target mk None Response ok show ?thesis
                by (intro no_workspace [of target b x]) (auto simp: use_template_try_def Let_def)
            next
              case (Inr tf)
              obtain tmp fs2 where tf: "tf = (tmp, fs2)" by (cases tf) auto
              obtain out' fs3 cs3 where w: "in_workspace env tn target tmp fs2 = (out', fs3, cs3)"
                by (cases "in_workspace env tn target tmp fs2") auto
              from assms c target mk None Response ok Inr tf w show ?thesis
                by (intro workspace [of target fs1 b tmp fs2 fs3 cs3])
                   (auto simp: use_template_try_def Let_def)
            qed
          qed
        qed
      qed
    qed
  qed
qed


lemma copy_item_calls:
  "copy_item env tp target rel fs = (out, fs', cs) \<Longrightarrow> c \<in> set cs \<Longrightarrow> is_loop_call c"
  by (auto simp: copy_item_def Let_def is_loop_call_def
           split: if_splits prod.splits option.splits)

lemma copy_loop_calls:
  "copy_loop env tp target rels acc fs = (out, fs', cs) \<Longrightarrow> c \<in> set cs \<Longrightarrow> is_loop_call c"
proof (induction rels arbitrary: acc fs out fs' cs)
  case Nil
  then show ?case by simp
next
  case (Cons rel rels)
  obtain o1 fs1 cs1 where step: "copy_item env tp target rel fs = (o1, fs1, cs1)"
    by (cases "copy_item env tp target rel fs") auto
  show ?case
  proof (cases o1)
    case (Inl x)
    with Cons.prems step show ?thesis by (auto dest: copy_item_calls)
  next
    case (Inr new)
    obtain o2 fs2 cs2 where rest: "copy_loop env tp target rels (acc @ new) fs1 = (o2, fs2, cs2)"
      by (cases "copy_loop env tp target rels (acc @ new) fs1") auto
    with Cons.prems step Inr have "c \<in> set cs1 \<or> c \<in> set cs2" by auto
    with step rest show ?thesis by (auto dest: copy_item_calls Cons.IH)
  qed
qed

lemma in_workspace_cases [consumes 1, case_names clone_failed no_template copying]:
  assumes "in_workspace env tn target tmp fs = (out, fs', cs)"
  obtains
    (clone_failed) m es where "clone_from env = CloneFailed m es"
      "out = Inl (GitCommandError m)" "fs' = modify_dir tmp (\<lambda>_. es) fs"
      "cs = [CloneFrom GITHUB_REPO_URL tmp]"
  | (no_template) es where "clone_from env = Cloned es"
      "\<not> is_dir (modify_dir tmp (\<lambda>_. es) fs) (template_path_of env tmp tn)"
      "out = Inr (failure (''Template '' @ quoted tn @ '' not found in the cloned repository''))"
      "fs' = modify_dir tmp (\<lambda>_. es) fs" "cs = [CloneFrom GITHUB_REPO_URL tmp]"
  | (copying) es tes lout cs2 where "clone_from env = Cloned es"
      "stat (modify_dir tmp (\<lambda>_. es) fs) (template_path_of env tmp tn) = Inr (Dir tes)"
      "copy_loop env (template_path_of env tmp tn) target (rglob (Dir tes)) []
         (modify_dir tmp (\<lambda>_. es) fs) = (lout, fs', cs2)"
      "cs = CloneFrom GITHUB_REPO_URL tmp # cs2"
      "out = (case lout of Inl x \<Rightarrow> Inl x
              | Inr copied \<Rightarrow> Inr (success_result env tn target copied))"
proof (cases "clone_from env")
  case (CloneFailed m es)
  with assms show ?thesis by (intro clone_failed [of m es]) (auto simp: in_workspace_def)
next
  case (Cloned es)
  show ?thesis
  proof (cases "stat (modify_dir tmp (\<lambda>_. es) fs) (template_path_of env tmp tn)")
    case (Inl e)
    with assms Cloned show ?thesis
      by (intro no_template [of es]) (auto simp: in_workspace_def Let_def is_dir_def)
  next
    case (Inr n)
    show ?thesis
    proof (cases n)
      case (File c)
      with assms Cloned Inr show ?thesis
        by (intro no_template [of es]) (auto simp: in_workspace_def Let_def is_dir_def)
    next
      case (Dir tes)
      obtain lout fs2 cs2 where loop:
        "copy_loop env (template_path_of env tmp tn) target (rglob (Dir tes)) []
           (modify_dir tmp (\<lambda>_. es) fs) = (lout, fs2, cs2)"
        by (cases "copy_loop env (template_path_of env tmp tn) target (rglob (Dir tes)) []
           (modify_dir tmp (\<lambda>_. es) fs)") auto
      with assms Cloned Inr Dir show ?thesis
        by (intro copying [of es tes lout cs2]; cases lout)
           (auto simp: in_workspace_def Let_def success_result_def simp del: rglob.simps)
    qed
  qed
qed

lemma in_workspace_calls:
  assumes "in_workspace env tn target tmp fs = (out, fs', cs)"
  shows "\<exists>cs2. cs = CloneFrom GITHUB_REPO_URL tmp # cs2 \<and> (\<forall>c \<in> set cs2. is_loop_call c)"
  using assms
proof (cases rule: in_workspace_cases)
  case (copying es tes lout cs2)
  then show ?thesis by (auto dest: copy_loop_calls)
qed auto

lemma use_template_cases:
  assumes "use_template env tn cf fs = (r, fs', cs)"
  obtains out where "use_template_try env tn cf fs = (out, fs', cs)"
    "r = (case out of Inr r' \<Rightarrow> r' | Inl x \<Rightarrow> failure (str_exn (path_sep env) x))"
  using assms
  by (cases "use_template_try env tn cf fs") (auto simp: use_template_def split: sum.splits)

section \<open>The catalog check\<close>

text \<open>
  Claim C3. When the existence check of \<^verbatim>\<open>use_template\<close> is made and answered with a
  status other than 200, the result is the failure
  \<^verbatim>\<open>Template '<name>' not found in the repository\<close> for status 404, and for any other
  status the failure whose message ends with that status code. The calls made are the
  creation of the target directory and the request; no regular file is written or
  changed, and the only new entries of the file system are directories on the way to
  the target path.
\<close>

theorem catalog_check_refusal:
  assumes "use_template env template_name current_folder fs = (r, fs', cs)"
    and "HttpGet (GITHUB_API_URL @ ''/contents/'' @ template_name) \<in> set cs"
    and "http_get env (GITHUB_API_URL @ ''/contents/'' @ template_name) = Response status b"
    and "status \<noteq> 200"
  shows "r = failure (if status = 404
                      then ''Template '' @ quoted template_name @ '' not found in the repository''
                      else ''Failed to check template. Status code: '' @ str_int status)
         \<and> read_file fs' = read_file fs
         \<and> (\<exists>target. target_path_of env current_folder = Inr target
                \<and> dirs_made target fs fs'
                \<and> cs = [Mkdirs target, HttpGet (GITHUB_API_URL @ ''/contents/'' @ template_name)])"
proof -
  from assms(1) obtain out where body: "use_template_try env template_name current_folder fs = (out, fs', cs)"
    and r: "r = (case out of Inr r' \<Rightarrow> r' | Inl x \<Rightarrow> failure (str_exn (path_sep env) x))"
    by (rule use_template_cases)
  from body show ?thesis
  proof (cases rule: use_template_try_cases)
    case (not_found target b')
    from not_found(4) have "dirs_made target fs fs'" by (rule mkdir_parents_dirs_made)
    with not_found assms r show ?thesis by (auto simp: dirs_made_read)
  next
    case (bad_status target status' b')
    from bad_status(4) have "dirs_made target fs fs'" by (rule mkdir_parents_dirs_made)
    with bad_status assms r show ?thesis by (auto simp: dirs_made_read)
  qed (use assms in auto)
qed

theorem catalog_check_refusal_witness:
  "use_template posix_env ''nonexistent'' ''/tmp/proj'' example_fs
     = (failure (''Template '' @ quoted ''nonexistent'' @ '' not found in the repository''),
        Dir [(''tmp'', Dir [(''tmpa'', File ''x''), (''proj'', Dir [])]),
             (''home'', Dir [(''me'', Dir [])])],
        [Mkdirs [''tmp'', ''proj''], HttpGet (GITHUB_API_URL @ ''/contents/nonexistent'')])
   \<and> fst (use_template posix_env ''broken'' ''/tmp/proj'' example_fs)
     = failure ''Failed to check template. Status code: 503''
   \<and> read_file (fst (snd (use_template posix_env ''nonexistent'' ''/tmp/proj'' example_fs)))
     = read_file example_fs"
proof -
  have run: "use_template posix_env ''nonexistent'' ''/tmp/proj'' example_fs
     = (failure (''Template '' @ quoted ''nonexistent'' @ '' not found in the repository''),
        Dir [(''tmp'', Dir [(''tmpa'', File ''x''), (''proj'', Dir [])]),
             (''home'', Dir [(''me'', Dir [])])],
        [Mkdirs [''tmp'', ''proj''], HttpGet (GITHUB_API_URL @ ''/contents/nonexistent'')])"
    by code_simp
  have ans: "http_get posix_env (GITHUB_API_URL @ ''/contents/'' @ ''nonexistent'') = Response 404 (Json PNone)"
    by code_simp
  have "read_file (Dir [(''tmp'', Dir [(''tmpa'', File ''x''), (''proj'', Dir [])]),
             (''home'', Dir [(''me'', Dir [])])]) = read_file example_fs"
    using catalog_check_refusal [OF run _ ans] by simp
  moreover have "fst (use_template posix_env ''broken'' ''/tmp/proj'' example_fs)
     = failure ''Failed to check template. Status code: 503''"
    by code_simp
  ultimately show ?thesis using run by simp
qed

section \<open>The workspace is removed\<close>

text \<open>
  Claim C2. Whenever \<^verbatim>\<open>use_template\<close> gets as far as calling \<^verbatim>\<open>Repo.clone_from\<close> on
  a workspace, that directory does not exist when the tool returns, whether the clone
  failed, the template was missing from it, a copy failed or everything succeeded; its
  removal is the last call made.
\<close>

theorem workspace_removed:
  assumes "use_template env template_name current_folder fs = (r, fs', cs)"
    and "CloneFrom url temp_path \<in> set cs"
  shows "\<not> exists_path fs' temp_path \<and> last cs = Rmtree temp_path"
proof -
  from assms(1) obtain out where body: "use_template_try env template_name current_folder fs = (out, fs', cs)"
    by (rule use_template_cases)
  from body show ?thesis
  proof (cases rule: use_template_try_cases)
    case (workspace target b fs1 tmp fs2 fs3 cs')
    from workspace(7) obtain cs2 where cs2: "cs' = CloneFrom GITHUB_REPO_URL tmp # cs2"
      "\<forall>c \<in> set cs2. is_loop_call c"
      using in_workspace_calls by blast
    with workspace(9) assms(2) have "temp_path = tmp"
      by (auto simp: is_loop_call_def)
    moreover from workspace(6) have "tmp \<noteq> []" by (auto dest: mkdtemp_made)
    then have "\<not> exists_path (rmtree tmp fs3) (tmp @ [])" by (rule rmtree_not_exists)
    ultimately show ?thesis using workspace by simp
  qed (use assms in auto)
qed

theorem workspace_removed_witness:
  "CloneFrom GITHUB_REPO_URL [''tmp'', ''tmpb'']
     \<in> set (snd (snd (use_template posix_env ''fastapi-starter'' ''/tmp/proj'' example_fs)))
   \<and> \<not> exists_path (fst (snd (use_template posix_env ''fastapi-starter'' ''/tmp/proj'' example_fs)))
          [''tmp'', ''tmpb'']
   \<and> CloneFrom GITHUB_REPO_URL [''tmp'', ''tmpb'']
     \<in> set (snd (snd (use_template failing_clone_env ''fastapi-starter'' ''/tmp/proj'' example_fs)))
   \<and> \<not> exists_path (fst (snd (use_template failing_clone_env ''fastapi-starter'' ''/tmp/proj'' example_fs)))
          [''tmp'', ''tmpb'']"
proof -
  have a: "CloneFrom GITHUB_REPO_URL [''tmp'', ''tmpb'']
     \<in> set (snd (snd (use_template posix_env ''fastapi-starter'' ''/tmp/proj'' example_fs)))"
    by code_simp
  have b: "CloneFrom GITHUB_REPO_URL [''tmp'', ''tmpb'']
     \<in> set (snd (snd (use_template failing_clone_env ''fastapi-starter'' ''/tmp/proj'' example_fs)))"
    by code_simp
  from a workspace_removed [of posix_env "''fastapi-starter''" "''/tmp/proj''" example_fs]
  have "\<not> exists_path (fst (snd (use_template posix_env ''fastapi-starter'' ''/tmp/proj'' example_fs)))
          [''tmp'', ''tmpb'']"
    by (metis prod.collapse)
  moreover from b workspace_removed [of failing_clone_env "''fastapi-starter''" "''/tmp/proj''" example_fs]
  have "\<not> exists_path (fst (snd (use_template failing_clone_env ''fastapi-starter'' ''/tmp/proj'' example_fs)))
          [''tmp'', ''tmpb'']"
    by (metis prod.collapse)
  ultimately show ?thesis using a b by simp
qed


section \<open>Failures and the files of the destination\<close>

lemma copy_item_no_copy:
  assumes "copy_item env tp target rel fs = (out, fs', cs)"
    and "\<forall>c \<in> set cs. \<not> is_copy_call c"
  shows "read_file fs' = read_file fs"
proof (cases "is_file fs (tp @ rel)")
  case False
  with assms show ?thesis by (simp add: copy_item_def)
next
  case True
  obtain mx fs1 where mk: "mkdir_parents (butlast (target @ rel)) fs = (mx, fs1)"
    by (cases "mkdir_parents (butlast (target @ rel)) fs") auto
  then have dm: "dirs_made (butlast (target @ rel)) fs fs1" by (rule mkdir_parents_dirs_made)
  show ?thesis
  proof (cases mx)
    case (Some x)
    with assms True mk have "fs' = fs1" by (simp add: copy_item_def Let_def)
    with dm show ?thesis by (simp add: dirs_made_read)
  next
    case None
    obtain cx fs2 where cp: "copy2 (tp @ rel) (target @ rel) fs1 = (cx, fs2)"
      by (cases "copy2 (tp @ rel) (target @ rel) fs1") auto
    with assms(1) True mk None
    have "cs = [Mkdirs (butlast (target @ rel)), Copy2 (tp @ rel) (target @ rel)]"
      by (cases cx) (simp_all add: copy_item_def Let_def)
    with assms(2) show ?thesis by (simp add: is_copy_call_def)
  qed
qed

lemma copy_loop_no_copy:
  "copy_loop env tp target rels acc fs = (out, fs', cs) \<Longrightarrow>
     \<forall>c \<in> set cs. \<not> is_copy_call c \<Longrightarrow> read_file fs' = read_file fs"
proof (induction rels arbitrary: acc fs out fs' cs)
  case Nil
  then show ?case by simp
next
  case (Cons rel rels)
  obtain o1 fs1 cs1 where step: "copy_item env tp target rel fs = (o1, fs1, cs1)"
    by (cases "copy_item env tp target rel fs") auto
  show ?case
  proof (cases o1)
    case (Inl x)
    with Cons.prems step have "fs' = fs1" "cs = cs1" by auto
    with Cons.prems step show ?thesis by (auto dest: copy_item_no_copy)
  next
    case (Inr new)
    obtain o2 fs2 cs2 where rest: "copy_loop env tp target rels (acc @ new) fs1 = (o2, fs2, cs2)"
      by (cases "copy_loop env tp target rels (acc @ new) fs1") auto
    with Cons.prems step Inr have eq: "fs' = fs2" "cs = cs1 @ cs2" by auto
    with Cons.prems(2) have a: "\<forall>c \<in> set cs1. \<not> is_copy_call c" and b: "\<forall>c \<in> set cs2. \<not> is_copy_call c"
      by auto
    from step a have "read_file fs1 = read_file fs" by (rule copy_item_no_copy)
    moreover from rest b have "read_file fs2 = read_file fs1" by (rule Cons.IH)
    ultimately show ?thesis using eq by simp
  qed
qed

lemma read_file_frame: "look fs' q = look fs q \<Longrightarrow> read_file fs' q = read_file fs q"
  by (simp add: read_file_def)

lemma in_workspace_no_copy:
  assumes "in_workspace env tn target tmp fs = (out, fs', cs)"
    and "\<forall>c \<in> set cs. \<not> is_copy_call c"
    and "\<not> prefix tmp q"
  shows "read_file fs' q = read_file fs q"
  using assms(1)
proof (cases rule: in_workspace_cases)
  case (clone_failed m es)
  with assms(3) show ?thesis by (auto intro!: read_file_frame look_modify_other)
next
  case (no_template es)
  with assms(3) show ?thesis by (auto intro!: read_file_frame look_modify_other)
next
  case (copying es tes lout cs2)
  from copying(4) assms(2) have "\<forall>c \<in> set cs2. \<not> is_copy_call c" by simp
  with copying(3) have "read_file fs' = read_file (modify_dir tmp (\<lambda>_. es) fs)"
    by (rule copy_loop_no_copy)
  moreover from assms(3) have "read_file (modify_dir tmp (\<lambda>_. es) fs) q = read_file fs q"
    by (intro read_file_frame look_modify_other)
  ultimately show ?thesis by simp
qed

lemma in_workspace_copy_call:
  assumes "in_workspace env tn target tmp fs = (out, fs', cs)"
    and "c \<in> set cs" and "is_copy_call c"
  shows "\<exists>es. clone_from env = Cloned es
           \<and> is_dir (modify_dir tmp (\<lambda>_. es) fs) (template_path_of env tmp tn)"
  using assms(1)
proof (cases rule: in_workspace_cases)
  case (copying es tes lout cs2)
  then show ?thesis by (auto simp: is_dir_def)
qed (use assms in \<open>auto simp: is_copy_call_def\<close>)

text \<open>
  Claim C1, as the code has it. A failing call of \<^verbatim>\<open>use_template\<close> in which no copy was
  attempted leaves every regular file of the file system as it was: no path reads
  differently afterwards, the destination included (directories may have been created).
  That covers the failures of validation, of resolving and creating the target, of the
  catalog check, of the workspace and of the clone, and a template missing from the
  clone: a copy is attempted only after both arguments passed validation, the check
  was answered with status 200 and the clone succeeded. A later copy error is not
  covered: the files copied before it stay at the destination.
\<close>

theorem failure_before_copy_keeps_files:
  assumes "use_template env template_name current_folder fs = (r, fs', cs)"
    and "r = failure msg"
  shows "((\<forall>c \<in> set cs. \<not> is_copy_call c) \<longrightarrow> read_file fs' = read_file fs)
       \<and> ((\<exists>c \<in> set cs. is_copy_call c) \<longrightarrow>
            template_name \<noteq> [] \<and> current_folder \<noteq> []
            \<and> (\<exists>b. http_get env (GITHUB_API_URL @ ''/contents/'' @ template_name)
                      = Response 200 b)
            \<and> (\<exists>es. clone_from env = Cloned es))"
proof -
  from assms(1) obtain out where
    body: "use_template_try env template_name current_folder fs = (out, fs', cs)"
    by (rule use_template_cases)
  from body show ?thesis
  proof (cases rule: use_template_try_cases)
    case (workspace target b fs1 tmp fs2 fs3 cs')
    from workspace(4) have d1: "dirs_made target fs fs1" by (rule mkdir_parents_dirs_made)
    from workspace(6) obtain n where tmp: "tmp = tmpdir env @ [n]" and mk: "os_mkdir tmp fs1 = Inr fs2"
      by (auto dest: mkdtemp_made)
    have one: "read_file fs' = read_file fs" if nc: "\<forall>c \<in> set cs. \<not> is_copy_call c"
    proof
      fix q
      show "read_file fs' q = read_file fs q"
      proof (cases "prefix tmp q")
        case True
        then obtain t where q: "q = tmp @ t" by (auto simp: prefix_def)
        from tmp have "\<not> exists_path (rmtree tmp fs3) (tmp @ t)"
          by (intro rmtree_not_exists) simp
        with workspace(8) q have "read_file fs' q = None"
          by (auto simp: read_file_def exists_look split: sum.splits option.splits)
        moreover from mk have "look fs1 tmp = Inl ENOENT" by (rule os_mkdir_look)
        then have "look fs1 q = Inl ENOENT" unfolding q by (rule look_below_missing)
        then have "read_file fs1 q = None" by (simp add: read_file_def)
        ultimately show ?thesis using d1 by (simp add: dirs_made_read)
      next
        case False
        with tmp have "look (rmtree tmp fs3) q = look fs3 q" by (intro rmtree_other) auto
        with workspace(8) have "read_file fs' q = read_file fs3 q" by (auto intro: read_file_frame)
        also from nc workspace(9) have "\<forall>c \<in> set cs'. \<not> is_copy_call c" by simp
        with workspace(7) have "read_file fs3 q = read_file fs2 q"
          using False by (rule in_workspace_no_copy)
        also from False have "q \<noteq> tmp" by auto
        with mk have "read_file fs2 q = read_file fs1 q"
          by (intro read_file_frame) (simp add: os_mkdir_look)
        also from d1 have "read_file fs1 q = read_file fs q" by (simp add: dirs_made_read)
        finally show ?thesis .
      qed
    qed
    have two: "\<exists>es. clone_from env = Cloned es" if "\<exists>c \<in> set cs. is_copy_call c"
    proof -
      from that workspace(9) obtain c where "c \<in> set cs'" "is_copy_call c"
        by (auto simp: is_copy_call_def)
      with workspace(7) show ?thesis by (blast dest: in_workspace_copy_call)
    qed
    from one two workspace show ?thesis by blast
  qed (auto simp: is_copy_call_def dirs_made_read dest: mkdir_parents_dirs_made)
qed

theorem failure_before_copy_keeps_files_witness:
  "fst (use_template failing_clone_env ''fastapi-starter'' ''/tmp/proj'' example_fs)
      = failure ''fatal: unable to access''
   \<and> read_file (fst (snd (use_template failing_clone_env ''fastapi-starter'' ''/tmp/proj'' example_fs)))
      = read_file example_fs
   \<and> is_dir (fst (snd (use_template failing_clone_env ''fastapi-starter'' ''/tmp/proj'' example_fs)))
        [''tmp'', ''proj'']"
proof -
  have run: "use_template failing_clone_env ''fastapi-starter'' ''/tmp/proj'' example_fs
     = (failure ''fatal: unable to access'',
        Dir [(''tmp'', Dir [(''tmpa'', File ''x''), (''proj'', Dir [])]),
             (''home'', Dir [(''me'', Dir [])])],
        [Mkdirs [''tmp'', ''proj''], HttpGet (GITHUB_API_URL @ ''/contents/fastapi-starter''),
         Mkdtemp, CloneFrom GITHUB_REPO_URL [''tmp'', ''tmpb''], Rmtree [''tmp'', ''tmpb'']])"
    by code_simp
  have "read_file (Dir [(''tmp'', Dir [(''tmpa'', File ''x''), (''proj'', Dir [])]),
             (''home'', Dir [(''me'', Dir [])])]) = read_file example_fs"
    using failure_before_copy_keeps_files [OF run refl] by (simp add: is_copy_call_def)
  moreover have "is_dir (Dir [(''tmp'', Dir [(''tmpa'', File ''x''), (''proj'', Dir [])]),
             (''home'', Dir [(''me'', Dir [])])]) [''tmp'', ''proj'']"
    by code_simp
  ultimately show ?thesis by (simp add: run)
qed

text \<open>
  The claim as the specification states it fails on a copy error after the first file:
  with a regular file \<^verbatim>\<open>app\<close> in the target directory the call fails on the directory
  \<^verbatim>\<open>app\<close> of the template, and \<^verbatim>\<open>main.py\<close>, copied before, is at the destination, where it
  was not before the call.
\<close>

theorem partial_copy_remains:
  "fst (use_template posix_env ''fastapi-starter'' ''/tmp/proj'' occupied_fs)
      = failure (''[Errno 17] File exists: '' @ quoted ''/tmp/proj/app'')
   \<and> read_file occupied_fs [''tmp'', ''proj'', ''main.py''] = None
   \<and> read_file (fst (snd (use_template posix_env ''fastapi-starter'' ''/tmp/proj'' occupied_fs)))
        [''tmp'', ''proj'', ''main.py''] = Some ''print(1)''"
  by code_simp


section \<open>Writing a file\<close>

lemma look_write_file:
  assumes "is_dir fs (butlast p)" and "p \<noteq> []"
  shows "look (write_file p c fs) q =
           (if q = p then Inr (Some c) else if prefix p q then Inl ENOTDIR else look fs q)"
proof -
  from assms(1) obtain es where es: "stat fs (butlast p) = Inr (Dir es)"
    by (auto simp: is_dir_def split: sum.splits node.splits)
  from assms(2) have pp: "butlast p @ [last p] = p" by simp
  show ?thesis
  proof (cases "prefix (butlast p) q")
    case False
    have "prefix (butlast p) p" using pp by (metis prefixI)
    with False have "\<not> prefix p q" by (auto dest: prefix_order.trans)
    with False show ?thesis by (auto simp: write_file_def look_modify_other)
  next
    case True
    then obtain r where q: "q = butlast p @ r" by (auto simp: prefix_def)
    have a: "look (write_file p c fs) q = look (Dir (AList.update (last p) (File c) es)) r"
      unfolding write_file_def q using es by (rule look_modify_under)
    have b: "look fs q = look (Dir es) r" unfolding q using es by (rule look_append)
    show ?thesis
    proof (cases r)
      case Nil
      with q pp have "q \<noteq> p" "\<not> prefix p q"
        by (auto simp: prefix_def)
      with a b Nil show ?thesis by (simp add: update_conv')
    next
      case (Cons a rs)
      show ?thesis
      proof (cases "a = last p")
        case True
        with Cons q pp have qp: "q = p @ rs" by simp
        from True Cons a have "look (write_file p c fs) q = look (File c) rs"
          by (simp add: update_conv')
        with qp show ?thesis by (cases rs) auto
      next
        case False
        have "\<not> prefix p q"
        proof
          assume "prefix p q"
          then obtain t where "q = p @ t" by (auto simp: prefix_def)
          with q pp have "butlast p @ r = butlast p @ (last p # t)" by (metis append.assoc append_Cons append_Nil)
          with Cons False show False by simp
        qed
        moreover then have "q \<noteq> p" by auto
        ultimately show ?thesis using a b Cons False by (simp add: update_conv')
      qed
    qed
  qed
qed

lemma copy2_failed: "copy2 src dst fs = (Some x, fs') \<Longrightarrow> fs' = fs"
  by (auto simp: copy2_def Let_def split: if_splits sum.splits node.splits option.splits)

text \<open>Where \<^verbatim>\<open>copy2\<close> writes.\<close>

lemma copy2_done:
  assumes "copy2 src dst fs = (None, fs')"
  obtains c dst' where "look fs src = Inr (Some c)"
    "dst' = (if is_dir fs dst then dst @ (if src = [] then [] else [last src]) else dst)"
    "dst' \<noteq> []" "is_dir fs (butlast dst')" "\<not> is_dir fs dst'" "src \<noteq> dst'"
    "fs' = write_file dst' c fs"
proof -
  define dst' where "dst' = (if is_dir fs dst then dst @ (if src = [] then [] else [last src]) else dst)"
  from assms have ne: "\<not> (src = dst' \<and> exists_path fs src)"
    by (auto simp: copy2_def Let_def dst'_def split: if_splits)
  with assms obtain c where c: "stat fs src = Inr (File c)"
    by (auto simp: copy2_def Let_def dst'_def split: if_splits sum.splits node.splits)
  then have ex: "exists_path fs src" by (simp add: exists_path_def)
  with ne have neq: "src \<noteq> dst'" by simp
  from assms c neq have d: "dst' \<noteq> []"
    by (auto simp: copy2_def Let_def dst'_def split: if_splits)
  from assms c neq d obtain es where es: "stat fs (butlast dst') = Inr (Dir es)"
    by (auto simp: copy2_def Let_def dst'_def split: if_splits sum.splits node.splits)
  from assms c neq d es have w: "fs' = write_file dst' c fs"
    and nd: "\<forall>x. map_of es (last dst') \<noteq> Some (Dir x)"
    by (auto simp: copy2_def Let_def dst'_def split: if_splits option.splits node.splits)
  from d have "stat fs dst' = stat (Dir es) [last dst']"
    using stat_append [OF es, of "[last dst']"] by simp
  with nd have "\<not> is_dir fs dst'"
    by (auto simp: is_dir_def split: option.splits sum.splits node.splits)
  moreover from c have "look fs src = Inr (Some c)" by (simp add: look_stat)
  moreover from es have "is_dir fs (butlast dst')" by (simp add: is_dir_def)
  ultimately show ?thesis using that [of c dst'] dst'_def d neq w by blast
qed

lemma copy2_kinds:
  assumes "copy2 src dst fs = (x, fs')"
  shows "(is_dir fs q \<longrightarrow> is_dir fs' q) \<and> (is_file fs q \<longrightarrow> is_file fs' q)"
proof (cases x)
  case (Some e)
  with assms show ?thesis by (auto dest: copy2_failed)
next
  case None
  with assms obtain c dst' where d: "dst' \<noteq> []" "is_dir fs (butlast dst')" "\<not> is_dir fs dst'"
    "fs' = write_file dst' c fs"
    by (auto elim: copy2_done)
  have l: "look fs' q = (if q = dst' then Inr (Some c) else if prefix dst' q then Inl ENOTDIR else look fs q)"
    unfolding d(4) using d(2,1) by (rule look_write_file)
  show ?thesis
  proof (cases "prefix dst' q")
    case False
    with l show ?thesis by (auto simp: is_dir_look is_file_look)
  next
    case True
    then obtain t where q: "q = dst' @ t" by (auto simp: prefix_def)
    show ?thesis
    proof (cases "t = []")
      case True
      with q l d(3) show ?thesis by (auto simp: is_dir_look is_file_look)
    next
      case False
      have "\<not> is_dir fs q \<and> \<not> is_file fs q"
      proof (rule ccontr)
        assume "\<not> (\<not> is_dir fs q \<and> \<not> is_file fs q)"
        then obtain k where "look fs (dst' @ t) = Inr k"
          using q by (auto simp: is_dir_look is_file_look)
        then have "look fs dst' = Inr None" using False by (rule look_prefix_dir)
        with d(3) show False by (simp add: is_dir_look)
      qed
      then show ?thesis by simp
    qed
  qed
qed

lemma copy_item_kinds:
  assumes "copy_item env tp target rel fs = (out, fs', cs)"
  shows "(is_dir fs q \<longrightarrow> is_dir fs' q) \<and> (is_file fs q \<longrightarrow> is_file fs' q)"
proof (cases "is_file fs (tp @ rel)")
  case False
  with assms show ?thesis by (simp add: copy_item_def)
next
  case True
  obtain mx fs1 where mk: "mkdir_parents (butlast (target @ rel)) fs = (mx, fs1)"
    by (cases "mkdir_parents (butlast (target @ rel)) fs") auto
  then have dm: "dirs_made (butlast (target @ rel)) fs fs1" by (rule mkdir_parents_dirs_made)
  then have k1: "(is_dir fs q \<longrightarrow> is_dir fs1 q) \<and> (is_file fs q \<longrightarrow> is_file fs1 q)"
    by (auto simp: is_dir_look is_file_look dest: dirs_made_kept)
  show ?thesis
  proof (cases mx)
    case (Some x)
    with assms True mk have "fs' = fs1" by (simp add: copy_item_def Let_def)
    with k1 show ?thesis by simp
  next
    case None
    obtain cx fs2 where cp: "copy2 (tp @ rel) (target @ rel) fs1 = (cx, fs2)"
      by (cases "copy2 (tp @ rel) (target @ rel) fs1") auto
    with assms True mk None have "fs' = fs2"
      by (cases cx) (simp_all add: copy_item_def Let_def)
    with copy2_kinds [OF cp, of q] k1 show ?thesis by simp
  qed
qed

lemma copy_item_new:
  assumes "copy_item env tp target rel fs = (Inr new, fs', cs)"
  shows "new = (if is_file fs (tp @ rel) then [str_rel (path_sep env) rel] else [])"
  using assms
  by (auto simp: copy_item_def Let_def split: if_splits prod.splits option.splits)

lemma kind_exclusive: "is_dir fs q \<Longrightarrow> \<not> is_file fs q"
  by (auto simp: is_dir_look is_file_look)

lemma exists_kind: "exists_path fs q \<longleftrightarrow> is_dir fs q \<or> is_file fs q"
  by (auto simp: exists_look is_dir_look is_file_look)

lemma copy_loop_result:
  "copy_loop env tp target rels acc fs = (Inr copied, fs', cs) \<Longrightarrow>
     \<forall>rel \<in> set rels. exists_path fs (tp @ rel) \<Longrightarrow>
     copied = acc @ map (str_rel (path_sep env)) (filter (\<lambda>rel. is_file fs (tp @ rel)) rels)"
proof (induction rels arbitrary: acc fs fs' cs)
  case Nil
  then show ?case by simp
next
  case (Cons rel rels)
  obtain o1 fs1 cs1 where step: "copy_item env tp target rel fs = (o1, fs1, cs1)"
    by (cases "copy_item env tp target rel fs") auto
  show ?case
  proof (cases o1)
    case (Inl x)
    with Cons.prems step show ?thesis by simp
  next
    case (Inr new)
    obtain o2 fs2 cs2 where rest: "copy_loop env tp target rels (acc @ new) fs1 = (o2, fs2, cs2)"
      by (cases "copy_loop env tp target rels (acc @ new) fs1") auto
    with Cons.prems(1) step Inr have o2: "o2 = Inr copied" by simp
    have kinds: "(is_dir fs q \<longrightarrow> is_dir fs1 q) \<and> (is_file fs q \<longrightarrow> is_file fs1 q)" for q
      using step by (rule copy_item_kinds)
    have same: "is_file fs1 (tp @ r) = is_file fs (tp @ r)" "exists_path fs1 (tp @ r)"
      if "r \<in> set rels" for r
    proof -
      from that Cons.prems(2) have "exists_path fs (tp @ r)" by simp
      with kinds [of "tp @ r"] show "is_file fs1 (tp @ r) = is_file fs (tp @ r)"
        "exists_path fs1 (tp @ r)"
        by (auto simp: exists_kind dest: kind_exclusive)
    qed
    from rest o2 have "copied = (acc @ new) @ map (str_rel (path_sep env))
        (filter (\<lambda>rel. is_file fs1 (tp @ rel)) rels)"
      using same(2) by (intro Cons.IH) auto
    moreover have "filter (\<lambda>rel. is_file fs1 (tp @ rel)) rels
        = filter (\<lambda>rel. is_file fs (tp @ rel)) rels"
      using same(1) by (intro filter_cong) auto
    moreover from step Inr have "new = (if is_file fs (tp @ rel) then [str_rel (path_sep env) rel] else [])"
      by (auto dest: copy_item_new)
    ultimately show ?thesis by simp
  qed
qed

section \<open>The enumeration\<close>

lemma map_of_distinct: "distinct (map fst es) \<Longrightarrow> e \<in> set es \<Longrightarrow> map_of es (fst e) = Some (snd e)"
  by (cases e) simp

lemma wf_stat: "wf_node n \<Longrightarrow> stat n p = Inr m \<Longrightarrow> wf_node m"
proof (induction n p rule: stat.induct)
  case (3 es c cs)
  then show ?case
    by (auto split: option.splits dest!: map_of_SomeD)
qed auto

lemma rglob_exists: "wf_node n \<Longrightarrow> rel \<in> set (rglob n) \<Longrightarrow> rel \<noteq> [] \<and> exists_path n rel"
proof (induction n arbitrary: rel rule: rglob.induct)
  case (1 c)
  then show ?case by simp
next
  case (2 es)
  from "2.prems"(2) consider (here) e where "e \<in> set es" "rel = [fst e]"
    | (below) e r where "e \<in> set es" "r \<in> set (rglob (snd e))" "rel = fst e # r"
    by auto
  then show ?case
  proof cases
    case here
    with "2.prems"(1) show ?thesis by (simp add: exists_path_def map_of_distinct)
  next
    case below
    with "2.prems"(1) have "wf_node (snd e)" by simp
    with below have "exists_path (snd e) r" using "2.IH" by blast
    with below "2.prems"(1) show ?thesis by (simp add: exists_path_def map_of_distinct)
  qed
qed

lemma filter_rglob: "wf_node n \<Longrightarrow> filter (is_file n) (rglob n) = walk_files n"
proof (induction n rule: rglob.induct)
  case (1 c)
  then show ?case by simp
next
  case (2 es)
  then have d: "distinct (map fst es)" and wf: "\<And>e. e \<in> set es \<Longrightarrow> wf_node (snd e)"
    by auto
  have top: "filter (is_file (Dir es)) (map (\<lambda>e. [fst e]) es)
      = map (\<lambda>e. [fst e]) (filter (\<lambda>e. is_regular (snd e)) es)"
  proof -
    have "is_file (Dir es) [fst e] = is_regular (snd e)" if "e \<in> set es" for e
      using that d by (auto simp: is_file_def is_regular_def map_of_distinct split: node.splits)
    then show ?thesis by (simp add: filter_map comp_def cong: filter_cong)
  qed
  have sub: "filter (is_file (Dir es)) (map ((#) (fst e)) (rglob (snd e)))
      = map ((#) (fst e)) (walk_files (snd e))" if "e \<in> set es" for e
  proof -
    have "is_file (Dir es) (fst e # r) = is_file (snd e) r" for r
      using that d by (simp add: is_file_def map_of_distinct)
    then have "filter (is_file (Dir es)) (map ((#) (fst e)) (rglob (snd e)))
        = map ((#) (fst e)) (filter (is_file (snd e)) (rglob (snd e)))"
      by (simp add: filter_map comp_def)
    with that wf "2.IH" show ?thesis by simp
  qed
  have "filter (is_file (Dir es)) (concat (map (\<lambda>e. map ((#) (fst e)) (rglob (snd e))) es))
      = concat (map (\<lambda>e. map ((#) (fst e)) (walk_files (snd e))) es)"
    using sub by (simp add: filter_concat comp_def cong: map_cong)
  with top show ?case by simp
qed







section \<open>The list of copied files\<close>

lemma success_not_failure: "map_of (failure msg) ''success'' \<noteq> Some (PBool True)"
  by (simp add: failure_def)

lemma copied_files:
  assumes run: "use_template env tn cf fs = (r, fs', cs)"
    and ok: "map_of r ''success'' = Some (PBool True)"
    and rel: "\<not> is_absolute (path_sep env) tn"
    and cl: "clone_from env = Cloned es"
    and wf: "wf_node (Dir es)"
  obtains tes target where "stat (Dir es) (path_parts (path_sep env) tn) = Inr (Dir tes)"
    "wf_node (Dir tes)"
    "r = success_result env tn target (map (str_rel (path_sep env)) (walk_files (Dir tes)))"
proof -
  from run obtain out where body: "use_template_try env tn cf fs = (out, fs', cs)"
    and r: "r = (case out of Inr r' \<Rightarrow> r' | Inl x \<Rightarrow> failure (str_exn (path_sep env) x))"
    by (rule use_template_cases)
  from r ok obtain r' where out: "out = Inr r'" "r' = r"
    by (cases out) (auto simp: success_not_failure)
  from body show ?thesis
  proof (cases rule: use_template_try_cases)
    case (workspace target b fs1 tmp fs2 fs3 cs')
    from workspace(6) obtain n where mk: "os_mkdir tmp fs2' = Inr fs2" if "fs2' = fs1" for fs2'
      by (auto dest: mkdtemp_made)
    then have "look fs2 tmp = Inr None" by (simp add: os_mkdir_look)
    then obtain es0 where tmpdir: "stat fs2 tmp = Inr (Dir es0)"
      by (auto simp: look_stat split: sum.splits node.splits)
    from workspace(7) show ?thesis
    proof (cases rule: in_workspace_cases)
      case (clone_failed m es')
      with out show ?thesis by simp
    next
      case (no_template es')
      with out ok show ?thesis by (auto simp: success_not_failure)
    next
      case (copying es' tes lout cs2)
      with cl have es': "es' = es" by simp
      from copying(5) out obtain copied where lout: "lout = Inr copied"
        and r': "r = success_result env tn target copied"
        by (cases lout) auto
      let ?tp = "template_path_of env tmp tn"
      let ?fs = "modify_dir tmp (\<lambda>_. es) fs2"
      from rel have tp: "?tp = tmp @ path_parts (path_sep env) tn"
        by (simp add: template_path_of_def)
      have under: "stat ?fs (tmp @ q) = stat (Dir es) q" for q
        using tmpdir by (rule stat_modify_under)
      from copying(2) es' tp have tn: "stat (Dir es) (path_parts (path_sep env) tn) = Inr (Dir tes)"
        by (simp add: under)
      with wf have wft: "wf_node (Dir tes)" by (rule wf_stat)
      have at: "stat ?fs (?tp @ q) = stat (Dir tes) q" for q
        using copying(2) es' by (simp add: stat_append)
      then have ex: "exists_path ?fs (?tp @ q) = exists_path (Dir tes) q"
        and isf: "is_file ?fs (?tp @ q) = is_file (Dir tes) q" for q
        by (simp_all add: exists_path_def is_file_def)
      have "\<forall>rel \<in> set (rglob (Dir tes)). exists_path ?fs (?tp @ rel)"
        unfolding ex using rglob_exists [OF wft] by blast
      with copying(3) es' lout
      have "copied = [] @ map (str_rel (path_sep env))
          (filter (\<lambda>rel. is_file ?fs (?tp @ rel)) (rglob (Dir tes)))"
        by (intro copy_loop_result) auto
      also have "filter (\<lambda>rel. is_file ?fs (?tp @ rel)) (rglob (Dir tes)) = walk_files (Dir tes)"
        using filter_rglob [OF wft] by (simp add: isf del: rglob.simps walk_files.simps)
      finally have "copied = map (str_rel (path_sep env)) (walk_files (Dir tes))" by simp
      with r' tn wft show ?thesis by (intro that [of tes target]) auto
    qed
  qed (use out ok in \<open>auto simp: success_not_failure\<close>)
qed





section \<open>The order of the copied files\<close>




section \<open>A second run\<close>

































end
